theory Spec2Isabelle
  imports Complex_Main "HOL-Library.Multiset"
begin

section \<open>Arrays, exceptions and the limits of the real-number model\<close>

text \<open>
  The module \<^verbatim>\<open>freqopttest/tst.py\<close> computes with numpy and theano arrays of
  double-precision floats. The embedding works over the real numbers: a one-dimensional
  array is a list of reals and a two-dimensional array is the list of its rows. Rounding
  is not modelled.

  A Python exception is a value \<open>Raised e\<close>. Where the floating-point program would go
  on with \<^verbatim>\<open>inf\<close> or \<^verbatim>\<open>nan\<close> (a division by zero, the mean of no
  rows), the model stops with \<open>NonFinite\<close>: this is not an exception, so a
  \<^verbatim>\<open>try/except\<close> of the source does not catch it.
\<close>

type_synonym vec = "real list"
type_synonym mat = "real list list"

datatype exn = ValueError | LinAlgError | IndexError | UnboundLocalError | AttributeError

datatype fault = Raised exn | NonFinite

text \<open>The result of \<^verbatim>\<open>np.cov\<close>, which squeezes a 1 x 1 covariance to a 0-d array.\<close>

datatype ndarray = Array0 real | Array2 mat

definition dot :: "vec \<Rightarrow> vec \<Rightarrow> real" where
  "dot x y = sum_list (map2 (*) x y)"

definition vscale :: "real \<Rightarrow> vec \<Rightarrow> vec" where
  "vscale c v = map ((*) c) v"

definition vsub :: "vec \<Rightarrow> vec \<Rightarrow> vec" where
  "vsub u v = map2 (-) u v"

definition sumsq :: "vec \<Rightarrow> real" where
  \<comment> \<open>one entry of \<^verbatim>\<open>np.sum(X**2, 1)\<close>\<close>
  "sumsq x = sum_list (map (\<lambda>a. a * a) x)"

definition sdiv :: "mat \<Rightarrow> real \<Rightarrow> mat" where
  \<comment> \<open>\<^verbatim>\<open>X/gaussian_width\<close>\<close>
  "sdiv X w = map (map (\<lambda>a. a / w)) X"

definition dot_T :: "mat \<Rightarrow> mat \<Rightarrow> mat" where
  \<comment> \<open>\<^verbatim>\<open>X.dot(T.T)\<close>: entry (i, j) is the inner product of row i of X and row j of T\<close>
  "dot_T X T = map (\<lambda>x. map (\<lambda>t. dot x t) T) X"

definition aligned :: "mat \<Rightarrow> mat \<Rightarrow> bool" where
  \<comment> \<open>the rows of X and of T have the same length; numpy's \<^verbatim>\<open>dot\<close> raises
      ValueError otherwise\<close>
  "aligned X T = list_all (\<lambda>x. list_all (\<lambda>t. length x = length t) T) X"

definition mmap :: "(real \<Rightarrow> real) \<Rightarrow> mat \<Rightarrow> mat" where
  "mmap f M = map (map f) M"

definition row_scale :: "mat \<Rightarrow> vec \<Rightarrow> mat" where
  \<comment> \<open>\<^verbatim>\<open>M*f\<close> for an n x 1 column f: row i of M times f[i]\<close>
  "row_scale M f = map2 (\<lambda>r c. map (\<lambda>a. a * c) r) M f"

definition hstack :: "mat \<Rightarrow> mat \<Rightarrow> mat" where
  "hstack A B = map2 (@) A B"

definition msub :: "mat \<Rightarrow> mat \<Rightarrow> mat" where
  \<comment> \<open>elementwise difference of two arrays of the same shape\<close>
  "msub A B = map2 vsub A B"

definition np_sub :: "mat \<Rightarrow> mat \<Rightarrow> fault + mat" where
  \<comment> \<open>numpy's \<^verbatim>\<open>g - h\<close> for g of shape (a, J) and h of shape (b, J): the row
      axes must agree, or one of them has length 1 and is broadcast\<close>
  "np_sub g h =
     (if length g = length h then Inr (msub g h)
      else if length g = 1 then Inr (map (\<lambda>r. vsub (hd g) r) h)
      else if length h = 1 then Inr (map (\<lambda>r. vsub r (hd h)) g)
      else Inl (Raised ValueError))"

section \<open>Linear solves\<close>

text \<open>
  \<^verbatim>\<open>np.linalg.solve\<close> and theano's \<^verbatim>\<open>matrix_inverse\<close> (numpy's
  \<^verbatim>\<open>inv\<close>) both call LAPACK's \<^verbatim>\<open>gesv\<close>, the second with the identity as
  right-hand side; it raises LinAlgError when it meets a zero pivot. Modelled from the
  library's contract as Gaussian elimination over the reals on the rows of the
  augmented system, each row a pair of its coefficients and its right-hand side. The
  pivot is the first row with a non-zero leading coefficient (LAPACK takes the largest;
  over the reals the solution is the same).
\<close>

definition lead :: "vec \<Rightarrow> real" where
  "lead a = (case a of [] \<Rightarrow> 0 | x # _ \<Rightarrow> x)"

fun pick_pivot :: "(vec \<times> vec) list \<Rightarrow> ((vec \<times> vec) \<times> (vec \<times> vec) list) option" where
  "pick_pivot [] = None"
| "pick_pivot (r # rs) =
     (if lead (fst r) \<noteq> 0 then Some (r, rs)
      else (case pick_pivot rs of None \<Rightarrow> None | Some (p, rest) \<Rightarrow> Some (p, r # rest)))"

definition normalise :: "vec \<times> vec \<Rightarrow> vec \<times> vec" where
  \<comment> \<open>divide the pivot row by its leading coefficient and drop that coefficient\<close>
  "normalise r = (vscale (1 / lead (fst r)) (tl (fst r)), vscale (1 / lead (fst r)) (snd r))"

definition eliminate :: "vec \<times> vec \<Rightarrow> vec \<times> vec \<Rightarrow> vec \<times> vec" where
  \<comment> \<open>subtract from a row its leading coefficient times the normalised pivot row\<close>
  "eliminate p r =
     (vsub (tl (fst r)) (vscale (lead (fst r)) (fst p)),
      vsub (snd r) (vscale (lead (fst r)) (snd p)))"

definition back_subst :: "vec \<times> vec \<Rightarrow> mat \<Rightarrow> vec" where
  \<comment> \<open>the pivot unknown, from the unknowns already solved\<close>
  "back_subst p xs = foldl (\<lambda>acc (c, x). vsub acc (vscale c x)) (snd p) (zip (fst p) xs)"

lemma pick_pivot_length:
  "pick_pivot rows = Some (p, rest) \<Longrightarrow> length rest < length rows"
  by (induction rows arbitrary: p rest) (auto split: if_splits option.splits)

function gauss :: "(vec \<times> vec) list \<Rightarrow> mat option" where
  "gauss rows =
     (if rows = [] then Some []
      else (case pick_pivot rows of
              None \<Rightarrow> None
            | Some (r, rest) \<Rightarrow>
                (case gauss (map (eliminate (normalise r)) rest) of
                   None \<Rightarrow> None
                 | Some xs \<Rightarrow> Some (back_subst (normalise r) xs # xs))))"
  by pat_completeness auto
termination
  by (relation "measure length") (auto dest: pick_pivot_length)

declare gauss.simps [simp del]

definition square :: "mat \<Rightarrow> bool" where
  "square A = list_all (\<lambda>r. length r = length A) A"

definition gesv :: "mat \<Rightarrow> mat \<Rightarrow> fault + mat" where
  "gesv A B =
     (if \<not> square A then Inl (Raised LinAlgError)
      else if length B \<noteq> length A then Inl (Raised ValueError)
      else (case gauss (zip A B) of
              None \<Rightarrow> Inl (Raised LinAlgError)
            | Some X \<Rightarrow> Inr X))"

definition np_linalg_solve :: "ndarray \<Rightarrow> vec \<Rightarrow> fault + vec" where
  \<comment> \<open>\<^verbatim>\<open>np.linalg.solve(a, b)\<close> for a vector b; a 0-d array is refused\<close>
  "np_linalg_solve a b =
     (case a of
        Array0 _ \<Rightarrow> Inl (Raised LinAlgError)
      | Array2 A \<Rightarrow>
          (case gesv A (map (\<lambda>x. [x]) b) of
             Inl e \<Rightarrow> Inl e
           | Inr X \<Rightarrow> Inr (concat X)))"

definition unit_vec :: "nat \<Rightarrow> nat \<Rightarrow> vec" where
  "unit_vec m i = map (\<lambda>j. if j = i then 1 else 0) [0..<m]"

definition matrix_inverse :: "mat \<Rightarrow> fault + mat" where
  \<comment> \<open>\<^verbatim>\<open>nlinalg.matrix_inverse(Sig)\<close>\<close>
  "matrix_inverse A = gesv A (map (unit_vec (length A)) [0..<length A])"

section \<open>Mean and covariance\<close>

definition np_mean0 :: "mat \<Rightarrow> fault + vec" where
  \<comment> \<open>\<^verbatim>\<open>np.mean(Z, 0)\<close>: the mean of each column; nan for no rows\<close>
  "np_mean0 Z =
     (if Z = [] then Inl NonFinite
      else Inr (map (\<lambda>c. sum_list c / real (length Z)) (transpose Z)))"

definition np_cov_T :: "mat \<Rightarrow> fault + ndarray" where
  \<comment> \<open>\<^verbatim>\<open>np.cov(Z.T)\<close>: columns of Z are the variables, rows the observations;
      centred by the column means, divided by the number of rows minus one, squeezed\<close>
  "np_cov_T Z =
     (if length Z \<le> 1 then Inl NonFinite
      else
        let cols = transpose Z;
            cen = map (\<lambda>c. map (\<lambda>a. a - sum_list c / real (length Z)) c) cols;
            c = map (\<lambda>ci. map (\<lambda>cj. dot ci cj * (1 / (real (length Z) - 1))) cen) cen
        in (case c of
              [[v]] \<Rightarrow> Inr (Array0 v)
            | _ \<Rightarrow> Inr (Array2 c)))"

section \<open>The two tests\<close>

record TSTData =
  data_X :: mat
  data_Y :: mat
  mean_std :: real

record TwoSampleTest =
  alpha :: real

record SmoothCFTest = TwoSampleTest +
  test_freqs :: "mat option"
  scf_gaussian_width :: real

record MeanEmbeddingTest = TwoSampleTest +
  test_locs :: "mat option"
  me_gaussian_width :: real

record TestResult =
  res_alpha :: real
  pvalue :: real
  test_stat :: real
  h0_rejected :: bool

definition SmoothCFTest_init :: "mat option \<Rightarrow> real \<Rightarrow> real \<Rightarrow> fault + SmoothCFTest" where
  \<comment> \<open>the constructor; the setter of \<^verbatim>\<open>gaussian_width\<close> refuses a width that is not > 0\<close>
  "SmoothCFTest_init T w a =
     (if w > 0 then Inr \<lparr>alpha = a, test_freqs = T, scf_gaussian_width = w\<rparr>
      else Inl (Raised ValueError))"

definition MeanEmbeddingTest_init :: "mat option \<Rightarrow> real \<Rightarrow> real \<Rightarrow> fault + MeanEmbeddingTest" where
  "MeanEmbeddingTest_init T w a =
     (if w > 0 then Inr \<lparr>alpha = a, test_locs = T, me_gaussian_width = w\<rparr>
      else Inl (Raised ValueError))"

definition smooth_features :: "mat \<Rightarrow> mat \<Rightarrow> mat" where
  \<comment> \<open>\<^verbatim>\<open>zx\<close> of \<^verbatim>\<open>construct_z\<close>, for X already divided by the width\<close>
  "smooth_features X T =
     (let fx = map (\<lambda>x. exp (- sumsq x / 2)) X;
          x_freq = dot_T X T
      in hstack (row_scale (mmap sin x_freq) fx) (row_scale (mmap cos x_freq) fx))"

definition construct_z :: "mat \<Rightarrow> mat \<Rightarrow> mat \<Rightarrow> real \<Rightarrow> fault + mat" where
  \<comment> \<open>\<^verbatim>\<open>SmoothCFTest.construct_z\<close>\<close>
  "construct_z X Y T w =
     (if length X \<noteq> length Y then Inl (Raised ValueError)
      else if w = 0 then Inl NonFinite
      else if \<not> (aligned X T \<and> aligned Y T) then Inl (Raised ValueError)
      else Inr (msub (smooth_features (sdiv X w) T) (smooth_features (sdiv Y w) T)))"

definition quad_stat :: "nat \<Rightarrow> mat \<Rightarrow> fault + real" where
  \<comment> \<open>the last four lines of both \<^verbatim>\<open>compute_stat\<close> methods:
      \<^verbatim>\<open>Sig = np.cov(Z.T); W = np.mean(Z, 0); s = n*np.linalg.solve(Sig, W).dot(W)\<close>\<close>
  "quad_stat n Z =
     (case np_cov_T Z of
        Inl e \<Rightarrow> Inl e
      | Inr Sig \<Rightarrow>
          (case np_mean0 Z of
             Inl e \<Rightarrow> Inl e
           | Inr W \<Rightarrow>
               (case np_linalg_solve Sig W of
                  Inl e \<Rightarrow> Inl e
                | Inr x \<Rightarrow> Inr (real n * dot x W))))"

definition SmoothCFTest_compute_stat :: "SmoothCFTest \<Rightarrow> TSTData \<Rightarrow> fault + real" where
  "SmoothCFTest_compute_stat self tst =
     (case test_freqs self of
        None \<Rightarrow> Inl (Raised ValueError)
      | Some T \<Rightarrow>
          (case construct_z (data_X tst) (data_Y tst) T (scf_gaussian_width self) of
             Inl e \<Rightarrow> Inl e
           | Inr Z \<Rightarrow> quad_stat (length (data_X tst)) Z))"

definition SmoothCFTest_perform_test ::
  "(real \<Rightarrow> nat \<Rightarrow> real) \<Rightarrow> SmoothCFTest \<Rightarrow> TSTData \<Rightarrow> fault + TestResult" where
  \<comment> \<open>the first argument stands for \<^verbatim>\<open>scipy.stats.chi2.sf\<close>\<close>
  "SmoothCFTest_perform_test sf self tst =
     (case SmoothCFTest_compute_stat self tst of
        Inl e \<Rightarrow> Inl e
      | Inr stat \<Rightarrow>
          (case test_freqs self of
             None \<Rightarrow> Inl (Raised AttributeError)
           | Some T \<Rightarrow>
               let J = length T;
                   p = sf stat (2 * J)
               in Inr \<lparr>res_alpha = alpha self, pvalue = p, test_stat = stat,
                        h0_rejected = (p < alpha self)\<rparr>))"

definition asym_gauss_kernel :: "mat \<Rightarrow> mat \<Rightarrow> real \<Rightarrow> fault + mat" where
  \<comment> \<open>\<^verbatim>\<open>MeanEmbeddingTest.asym_gauss_kernel\<close>\<close>
  "asym_gauss_kernel X T w =
     (if w = 0 then Inl NonFinite
      else if \<not> aligned X T then Inl (Raised ValueError)
      else Inr (map (\<lambda>x. map (\<lambda>t. exp (- (sumsq x - 2 * dot x t + sumsq t))) T)
                  (sdiv X w)))"

definition MeanEmbeddingTest_compute_stat :: "MeanEmbeddingTest \<Rightarrow> TSTData \<Rightarrow> fault + real" where
  "MeanEmbeddingTest_compute_stat self tst =
     (case test_locs self of
        None \<Rightarrow> Inl (Raised ValueError)
      | Some T \<Rightarrow>
          (case asym_gauss_kernel (data_X tst) T (me_gaussian_width self) of
             Inl e \<Rightarrow> Inl e
           | Inr g \<Rightarrow>
               (case asym_gauss_kernel (data_Y tst) T (me_gaussian_width self) of
                  Inl e \<Rightarrow> Inl e
                | Inr h \<Rightarrow>
                    (case np_sub g h of
                       Inl e \<Rightarrow> Inl e
                     | Inr Z \<Rightarrow> quad_stat (length (data_X tst)) Z))))"

definition MeanEmbeddingTest_perform_test ::
  "(real \<Rightarrow> nat \<Rightarrow> real) \<Rightarrow> MeanEmbeddingTest \<Rightarrow> TSTData \<Rightarrow> fault + TestResult" where
  "MeanEmbeddingTest_perform_test sf self tst =
     (case MeanEmbeddingTest_compute_stat self tst of
        Inl e \<Rightarrow> Inl e
      | Inr stat \<Rightarrow>
          (case test_locs self of
             None \<Rightarrow> Inl (Raised AttributeError)
           | Some T \<Rightarrow>
               let J = length T;
                   p = sf stat J
               in Inr \<lparr>res_alpha = alpha self, pvalue = p, test_stat = stat,
                        h0_rejected = (p < alpha self)\<rparr>))"

section \<open>The random generator\<close>

text \<open>
  numpy's global generator is a state that \<^verbatim>\<open>np.random.seed\<close> resets,
  \<^verbatim>\<open>get_state\<close> reads and \<^verbatim>\<open>set_state\<close> writes, and that every draw
  advances. Modelled from the library's contract: the state is the seed's key and the
  number of draws made since; the outputs themselves are parameters (\<open>bits\<close> for the
  raw integers, \<open>normal\<close> for the Gaussian deviates), functions of key and position.
  \<^verbatim>\<open>np.random.choice(n, k, replace=False)\<close> is the first k entries of a shuffle
  of \<^verbatim>\<open>arange(n)\<close>, one draw for each of the n - 1 swaps.
\<close>

record rng =
  rng_key :: nat
  rng_pos :: nat

definition np_random_seed :: "nat \<Rightarrow> rng" where
  "np_random_seed seed = \<lparr>rng_key = seed, rng_pos = 0\<rparr>"

definition randn :: "(nat \<Rightarrow> nat \<Rightarrow> real) \<Rightarrow> rng \<Rightarrow> nat \<Rightarrow> nat \<Rightarrow> mat \<times> rng" where
  \<comment> \<open>\<^verbatim>\<open>np.random.randn(J, d)\<close>, filled row by row\<close>
  "randn normal g J d =
     (map (\<lambda>i. map (\<lambda>j. normal (rng_key g) (rng_pos g + i * d + j)) [0..<d]) [0..<J],
      g\<lparr>rng_pos := rng_pos g + J * d\<rparr>)"

primrec shuffle :: "(nat \<Rightarrow> nat \<Rightarrow> nat) \<Rightarrow> nat \<Rightarrow> nat \<Rightarrow> nat \<Rightarrow> nat list \<Rightarrow> nat list" where
  "shuffle bits key pos 0 xs = xs"
| "shuffle bits key pos (Suc i) xs =
     (let j = bits key pos mod (Suc (Suc i))
      in shuffle bits key (Suc pos) i (xs[Suc i := xs ! j, j := xs ! Suc i]))"

definition np_random_choice ::
  "(nat \<Rightarrow> nat \<Rightarrow> nat) \<Rightarrow> rng \<Rightarrow> nat \<Rightarrow> int \<Rightarrow> fault + nat list \<times> rng" where
  "np_random_choice bits g n k =
     (if n = 0 then Inl (Raised ValueError)
      else if k < 0 \<or> int n < k then Inl (Raised ValueError)
      else Inr (take (nat k) (shuffle bits (rng_key g) (rng_pos g) (n - 1) [0..<n]),
                g\<lparr>rng_pos := rng_pos g + (n - 1)\<rparr>))"

section \<open>The optimizers\<close>

definition py_int :: "real \<Rightarrow> int" where
  \<comment> \<open>Python's \<^verbatim>\<open>int\<close> of a float: truncation towards zero\<close>
  "py_int r = (if 0 \<le> r then \<lfloor>r\<rfloor> else \<lceil>r\<rceil>)"

definition batch_size :: "real \<Rightarrow> nat \<Rightarrow> int" where
  \<comment> \<open>\<^verbatim>\<open>min(int(batch_proportion*nx), nx)\<close>\<close>
  "batch_size batch_proportion nx = min (py_int (batch_proportion * real nx)) (int nx)"

definition take_rows :: "mat \<Rightarrow> nat list \<Rightarrow> fault + mat" where
  \<comment> \<open>\<^verbatim>\<open>X[ind, :]\<close>\<close>
  "take_rows M ind =
     (if list_all (\<lambda>i. i < length M) ind then Inr (map (\<lambda>i. M ! i) ind)
      else Inl (Raised IndexError))"

text \<open>
  The theano graph. The shared variables are \<^verbatim>\<open>T\<close>, \<^verbatim>\<open>it\<close> and
  \<^verbatim>\<open>gamma_sq_th\<close>; the feature map \<open>func_z\<close> is an argument of both optimizers.
  \<^verbatim>\<open>tensor.grad\<close> is the differentiation capability of the environment: the
  gradients of the objective at a batch, a T and a value of the width variable are
  parameters of the model. The graph of the gradient with respect to T is compiled
  with the update that divides by its norm: when that graph is the constant zero, the
  simplification of the quotient 0/x leaves no division in the compiled update; any
  other graph is evaluated at each call, division included.
\<close>

record shared =
  T_th :: mat
  iter_th :: nat
  gamma_sq_th :: real

datatype T_gradient =
    Constant_zero
  | Evaluated "mat \<Rightarrow> mat \<Rightarrow> mat \<Rightarrow> real \<Rightarrow> mat"

record grads =
  gra_T :: T_gradient
  gra_gamma_sq :: "mat \<Rightarrow> mat \<Rightarrow> mat \<Rightarrow> real \<Rightarrow> real"

type_synonym feature_map = "mat \<Rightarrow> mat \<Rightarrow> mat \<Rightarrow> real \<Rightarrow> fault + mat"

definition construct_z_theano :: feature_map where
  \<comment> \<open>\<^verbatim>\<open>SmoothCFTest.construct_z_theano\<close>: no check of the row counts of its own;
      the elementwise difference refuses two matrices of different shapes\<close>
  "construct_z_theano X Y T w =
     (if w = 0 then Inl NonFinite
      else if \<not> (aligned X T \<and> aligned Y T) then Inl (Raised ValueError)
      else if length X \<noteq> length Y then Inl (Raised ValueError)
      else Inr (msub (smooth_features (sdiv X w) T) (smooth_features (sdiv Y w) T)))"

definition asym_gauss_kernel_theano :: "mat \<Rightarrow> mat \<Rightarrow> real \<Rightarrow> fault + mat" where
  \<comment> \<open>\<^verbatim>\<open>MeanEmbeddingTest.asym_gauss_kernel_theano\<close>\<close>
  "asym_gauss_kernel_theano X T w =
     (if w = 0 then Inl NonFinite
      else if \<not> aligned X T then Inl (Raised ValueError)
      else Inr (map (\<lambda>x. map (\<lambda>t. exp (- (sumsq x - 2 * dot x t + sumsq t))) T)
                  (sdiv X w)))"

definition me_construct_z_theano :: feature_map where
  \<comment> \<open>\<^verbatim>\<open>MeanEmbeddingTest.construct_z_theano\<close>; the elementwise difference of two
      theano matrices refuses different shapes\<close>
  "me_construct_z_theano X Y T w =
     (case asym_gauss_kernel_theano X T w of
        Inl e \<Rightarrow> Inl e
      | Inr g \<Rightarrow>
          (case asym_gauss_kernel_theano Y T w of
             Inl e \<Rightarrow> Inl e
           | Inr h \<Rightarrow>
               if length g \<noteq> length h then Inl (Raised ValueError) else Inr (msub g h)))"

definition th_objective :: "feature_map \<Rightarrow> nat \<Rightarrow> mat \<Rightarrow> mat \<Rightarrow> mat \<Rightarrow> real \<Rightarrow> fault + real" where
  \<comment> \<open>the output \<^verbatim>\<open>s\<close> of the compiled function, at the batch (Xb, Yb), the value T of
      the parameter matrix and the value q of \<^verbatim>\<open>gamma_sq_th\<close>:
      \<^verbatim>\<open>Z = func_z(Xth, Yth, T, tensor.sqr(gamma_sq_th)); W = Z.sum(axis=0)/nx;
      Z0 = Z - W; Sig = Z0.T.dot(Z0)/nx; s = matrix_inverse(Sig).dot(W).dot(W)*nx\<close>.
      With no row in the batch the covariance is the zero matrix.\<close>
  "th_objective func_z nx Xb Yb T q =
     (case func_z Xb Yb T (q * q) of
        Inl e \<Rightarrow> Inl e
      | Inr Z \<Rightarrow>
          if nx = 0 then Inl NonFinite
          else if Z = [] then Inl (Raised LinAlgError)
          else
            let W = map (\<lambda>c. sum_list c / real nx) (transpose Z);
                Z0 = map (\<lambda>r. vsub r W) Z;
                cols = transpose Z0;
                Sig = map (\<lambda>ci. map (\<lambda>cj. dot ci cj / real nx) cols) cols
            in (case matrix_inverse Sig of
                  Inl e \<Rightarrow> Inl e
                | Inr M \<Rightarrow> Inr (dot (map (\<lambda>r. dot r W) M) W * real nx)))"

definition gamma_update :: "real \<Rightarrow> nat \<Rightarrow> real \<Rightarrow> real \<Rightarrow> real" where
  \<comment> \<open>\<^verbatim>\<open>gamma_sq_th + gwidth_step_size*sgn(gra_gamma_sq)
        *minimum(abs_(gra_gamma_sq), max_gam_sq_step)/it**step_pow\<close>\<close>
  "gamma_update gwidth_step_size it q gg =
     q + gwidth_step_size * sgn gg * min \<bar>gg\<bar> 1 / sqrt (real it)"

definition T_update :: "real \<Rightarrow> nat \<Rightarrow> T_gradient \<Rightarrow> mat \<Rightarrow> mat \<Rightarrow> mat \<Rightarrow> real \<Rightarrow> fault + mat" where
  \<comment> \<open>\<^verbatim>\<open>T + T_step_size*gra_T/it**step_pow/tensor.sum(gra_T**2)**0.5\<close> as compiled, at
      the batch (Xb, Yb), the value T of the parameter matrix and the value q of
      \<^verbatim>\<open>gamma_sq_th\<close>. For a gradient evaluated at the call, a zero norm divides every
      entry by zero.\<close>
  "T_update T_step_size it gra Xb Yb T q =
     (case gra of
        Constant_zero \<Rightarrow> Inr T
      | Evaluated f \<Rightarrow>
          let gT = f Xb Yb T q;
              nrm = sqrt (sum_list (map sumsq gT))
          in if nrm = 0 \<and> concat gT \<noteq> [] then Inl NonFinite
             else Inr (map2 (map2 (\<lambda>t g. t + T_step_size * g / sqrt (real it) / nrm)) T gT))"

definition func_T :: "feature_map \<Rightarrow> grads \<Rightarrow> nat \<Rightarrow> real \<Rightarrow> real \<Rightarrow> shared \<Rightarrow> mat \<Rightarrow> mat
    \<Rightarrow> fault + real \<times> shared" where
  \<comment> \<open>one call of the compiled function of \<^verbatim>\<open>optimize_T_gaussian_width\<close>: the
      output, and the three updates computed from the old values\<close>
  "func_T func_z ad nx T_step_size gwidth_step_size st Xb Yb =
     (case th_objective func_z nx Xb Yb (T_th st) (gamma_sq_th st) of
        Inl e \<Rightarrow> Inl e
      | Inr s \<Rightarrow>
          (case T_update T_step_size (iter_th st) (gra_T ad) Xb Yb (T_th st) (gamma_sq_th st) of
             Inl e \<Rightarrow> Inl e
           | Inr T' \<Rightarrow>
               Inr (s, \<lparr>T_th = T', iter_th = iter_th st + 1,
                        gamma_sq_th = gamma_update gwidth_step_size (iter_th st) (gamma_sq_th st)
                          (gra_gamma_sq ad Xb Yb (T_th st) (gamma_sq_th st))\<rparr>)))"

definition func_gw :: "feature_map \<Rightarrow> grads \<Rightarrow> nat \<Rightarrow> real \<Rightarrow> shared \<Rightarrow> mat \<Rightarrow> mat
    \<Rightarrow> fault + real \<times> shared" where
  \<comment> \<open>one call of the compiled function of \<^verbatim>\<open>optimize_gaussian_width\<close>\<close>
  "func_gw func_z ad nx gwidth_step_size st Xb Yb =
     (case th_objective func_z nx Xb Yb (T_th st) (gamma_sq_th st) of
        Inl e \<Rightarrow> Inl e
      | Inr s \<Rightarrow>
          Inr (s, st\<lparr>iter_th := iter_th st + 1,
                     gamma_sq_th := gamma_update gwidth_step_size (iter_th st) (gamma_sq_th st)
                       (gra_gamma_sq ad Xb Yb (T_th st) (gamma_sq_th st))\<rparr>))"

definition draw_batch :: "(shared \<Rightarrow> mat \<Rightarrow> mat \<Rightarrow> fault + real \<times> shared) \<Rightarrow> mat \<Rightarrow> mat
    \<Rightarrow> nat list \<Rightarrow> shared \<Rightarrow> fault + real \<times> shared" where
  \<comment> \<open>\<^verbatim>\<open>func(X[ind, :], Y[ind, :])\<close>\<close>
  "draw_batch func X Y ind st =
     (case take_rows X ind of
        Inl e \<Rightarrow> Inl e
      | Inr Xb \<Rightarrow>
          (case take_rows Y ind of
             Inl e \<Rightarrow> Inl e
           | Inr Yb \<Rightarrow> func st Xb Yb))"

text \<open>
  The first two statements of the body of both loops, \<^verbatim>\<open>ind = np.random.choice(...)\<close>
  and \<^verbatim>\<open>func(X[ind, :], Y[ind, :])\<close>, as one call: the batch, the shared variables
  before and after the call, and the output. \<open>calls\<close> is the sequence of the first k
  calls from a generator and a value of the shared variables, as long as none fails.
\<close>

record call =
  call_X :: mat
  call_Y :: mat
  st_before :: shared
  call_s :: real
  st_after :: shared

definition one_call :: "(nat \<Rightarrow> nat \<Rightarrow> nat) \<Rightarrow> (shared \<Rightarrow> mat \<Rightarrow> mat \<Rightarrow> fault + real \<times> shared)
    \<Rightarrow> mat \<Rightarrow> mat \<Rightarrow> real \<Rightarrow> rng \<times> shared \<Rightarrow> fault + call \<times> rng" where
  "one_call bits func X Y batch_proportion gs =
     (case np_random_choice bits (fst gs) (length X) (batch_size batch_proportion (length X)) of
        Inl e \<Rightarrow> Inl e
      | Inr (ind, g') \<Rightarrow>
          (case take_rows X ind of
             Inl e \<Rightarrow> Inl e
           | Inr Xb \<Rightarrow>
               (case take_rows Y ind of
                  Inl e \<Rightarrow> Inl e
                | Inr Yb \<Rightarrow>
                    (case func (snd gs) Xb Yb of
                       Inl e \<Rightarrow> Inl e
                     | Inr (s, st') \<Rightarrow>
                         Inr (\<lparr>call_X = Xb, call_Y = Yb, st_before = snd gs, call_s = s,
                               st_after = st'\<rparr>, g')))))"

fun calls :: "(nat \<Rightarrow> nat \<Rightarrow> nat) \<Rightarrow> (shared \<Rightarrow> mat \<Rightarrow> mat \<Rightarrow> fault + real \<times> shared)
    \<Rightarrow> mat \<Rightarrow> mat \<Rightarrow> real \<Rightarrow> nat \<Rightarrow> rng \<times> shared \<Rightarrow> fault + call list" where
  "calls bits func X Y batch_proportion 0 gs = Inr []"
| "calls bits func X Y batch_proportion (Suc k) gs =
     (case one_call bits func X Y batch_proportion gs of
        Inl e \<Rightarrow> Inl e
      | Inr (c, g') \<Rightarrow>
          (case calls bits func X Y batch_proportion k (g', st_after c) of
             Inl e \<Rightarrow> Inl e
           | Inr cs \<Rightarrow> Inr (c # cs)))"

text \<open>
  The loop \<^verbatim>\<open>for t in range(max_iter)\<close> of \<^verbatim>\<open>optimize_T_gaussian_width\<close>,
  from index t on. It returns the final value of \<^verbatim>\<open>t\<close> (which the handler of the
  \<^verbatim>\<open>try\<close> decrements), the generator and the three arrays.
\<close>

function loop_T ::
  "(nat \<Rightarrow> nat \<Rightarrow> nat) \<Rightarrow> (shared \<Rightarrow> mat \<Rightarrow> mat \<Rightarrow> fault + real \<times> shared) \<Rightarrow> mat \<Rightarrow> mat
    \<Rightarrow> nat \<Rightarrow> real \<Rightarrow> real \<Rightarrow> nat \<Rightarrow> rng \<times> shared \<times> vec \<times> mat list \<times> vec
    \<Rightarrow> fault + int \<times> rng \<times> vec \<times> mat list \<times> vec" where
  "loop_T bits func X Y max_iter batch_proportion tol_fun t (g, st, S, Ts, gams) =
     (case np_random_choice bits g (length X) (batch_size batch_proportion (length X)) of
        Inl e \<Rightarrow> Inl e
      | Inr (ind, g') \<Rightarrow>
          (case draw_batch func X Y ind st of
             Inl (Raised e) \<Rightarrow> Inr (int t - 1, g', S, Ts, gams)
           | Inl NonFinite \<Rightarrow> Inl NonFinite
           | Inr (s, st') \<Rightarrow>
               let S' = S[t := s];
                   Ts' = Ts[t := T_th st'];
                   gams' = gams[t := (gamma_sq_th st')\<^sup>2]
               in if t \<ge> 2 \<and> \<bar>S' ! t - S' ! (t - 1)\<bar> \<le> tol_fun
                  then Inr (int t, g', S', Ts', gams')
                  else if Suc t < max_iter
                  then loop_T bits func X Y max_iter batch_proportion tol_fun (Suc t)
                         (g', st', S', Ts', gams')
                  else Inr (int t, g', S', Ts', gams')))"
  by pat_completeness auto
termination
  by (relation "measure (\<lambda>(bits, func, X, Y, max_iter, bp, tol, t, ls). max_iter - t)") auto

declare loop_T.simps [simp del]

record info_T =
  info_Ts :: "mat list"
  info_T0 :: mat
  info_gwidths :: vec
  info_obj_values :: vec

definition optimize_T_gaussian_width ::
  "(nat \<Rightarrow> nat \<Rightarrow> nat) \<Rightarrow> grads \<Rightarrow> TSTData \<Rightarrow> mat \<Rightarrow> feature_map \<Rightarrow> nat \<Rightarrow> real \<Rightarrow> real \<Rightarrow> real
    \<Rightarrow> real \<Rightarrow> rng \<Rightarrow> fault + (mat \<times> real \<times> info_T) \<times> rng" where
  "optimize_T_gaussian_width bits ad tst T0 func_z max_iter T_step_size gwidth_step_size
       batch_proportion tol_fun g =
     (let X = data_X tst; Y = data_Y tst; nx = length X
      in if mean_std tst < 0 then Inl NonFinite
         else if max_iter = 0 then Inl (Raised UnboundLocalError)
         else
           (case loop_T bits (func_T func_z ad nx T_step_size gwidth_step_size) X Y max_iter
                   batch_proportion tol_fun 0
                   (g, \<lparr>T_th = T0, iter_th = 1, gamma_sq_th = 1 / 10000 + sqrt (mean_std tst)\<rparr>,
                    replicate max_iter 0, replicate max_iter (map (map (\<lambda>_. 0)) T0),
                    replicate max_iter 0) of
              Inl e \<Rightarrow> Inl e
            | Inr (t, g', S, Ts, gams) \<Rightarrow>
                let S' = take (nat (t + 1)) S;
                    Ts' = take (nat (t + 1)) Ts;
                    gams' = take (nat (t + 1)) gams
                in if Ts' = [] then Inl (Raised IndexError)
                   else Inr ((last Ts', last gams',
                              \<lparr>info_Ts = Ts', info_T0 = T0, info_gwidths = gams',
                               info_obj_values = S'\<rparr>), g')))"

text \<open>The loop of \<^verbatim>\<open>optimize_gaussian_width\<close>, which has no \<^verbatim>\<open>try\<close>.\<close>

function loop_gw ::
  "(nat \<Rightarrow> nat \<Rightarrow> nat) \<Rightarrow> (shared \<Rightarrow> mat \<Rightarrow> mat \<Rightarrow> fault + real \<times> shared) \<Rightarrow> mat \<Rightarrow> mat
    \<Rightarrow> nat \<Rightarrow> real \<Rightarrow> real \<Rightarrow> nat \<Rightarrow> rng \<times> shared \<times> vec \<times> vec
    \<Rightarrow> fault + nat \<times> rng \<times> vec \<times> vec" where
  "loop_gw bits func X Y max_iter batch_proportion tol_fun t (g, st, S, gams) =
     (case np_random_choice bits g (length X) (batch_size batch_proportion (length X)) of
        Inl e \<Rightarrow> Inl e
      | Inr (ind, g') \<Rightarrow>
          (case draw_batch func X Y ind st of
             Inl e \<Rightarrow> Inl e
           | Inr (s, st') \<Rightarrow>
               let S' = S[t := s];
                   gams' = gams[t := (gamma_sq_th st')\<^sup>2]
               in if t \<ge> 2 \<and> \<bar>S' ! t - S' ! (t - 1)\<bar> \<le> tol_fun
                  then Inr (t, g', S', gams')
                  else if Suc t < max_iter
                  then loop_gw bits func X Y max_iter batch_proportion tol_fun (Suc t)
                         (g', st', S', gams')
                  else Inr (t, g', S', gams')))"
  by pat_completeness auto
termination
  by (relation "measure (\<lambda>(bits, func, X, Y, max_iter, bp, tol, t, ls). max_iter - t)") auto

declare loop_gw.simps [simp del]

record info_gw =
  info_T :: mat
  info_gw_gwidths :: vec
  info_gw_obj_values :: vec

definition optimize_gaussian_width ::
  "(nat \<Rightarrow> nat \<Rightarrow> nat) \<Rightarrow> grads \<Rightarrow> TSTData \<Rightarrow> mat \<Rightarrow> feature_map \<Rightarrow> nat \<Rightarrow> real \<Rightarrow> real
    \<Rightarrow> real \<Rightarrow> rng \<Rightarrow> fault + (real \<times> info_gw) \<times> rng" where
  "optimize_gaussian_width bits ad tst T func_z max_iter gwidth_step_size
       batch_proportion tol_fun g =
     (let X = data_X tst; Y = data_Y tst; nx = length X
      in if mean_std tst < 0 then Inl NonFinite
         else if max_iter = 0 then Inl (Raised UnboundLocalError)
         else
           (case loop_gw bits (func_gw func_z ad nx gwidth_step_size) X Y max_iter
                   batch_proportion tol_fun 0
                   (g, \<lparr>T_th = T, iter_th = 1, gamma_sq_th = 1 / 10000 + sqrt (mean_std tst)\<rparr>,
                    replicate max_iter 0, replicate max_iter 0) of
              Inl e \<Rightarrow> Inl e
            | Inr (t, g', S, gams) \<Rightarrow>
                let S' = take t S;
                    gams' = take t gams
                in if gams' = [] then Inl (Raised IndexError)
                   else Inr ((last gams',
                              \<lparr>info_T = T, info_gw_gwidths = gams', info_gw_obj_values = S'\<rparr>),
                             g')))"

definition dim :: "TSTData \<Rightarrow> nat" where
  \<comment> \<open>\<^verbatim>\<open>tst_data.dim()\<close>: the number of columns of X\<close>
  "dim tst = (case data_X tst of [] \<Rightarrow> 0 | r # _ \<Rightarrow> length r)"

definition optimize_freqs_width ::
  "(nat \<Rightarrow> nat \<Rightarrow> nat) \<Rightarrow> (nat \<Rightarrow> nat \<Rightarrow> real) \<Rightarrow> grads \<Rightarrow> TSTData \<Rightarrow> nat \<Rightarrow> nat \<Rightarrow> real \<Rightarrow> real
    \<Rightarrow> real \<Rightarrow> real \<Rightarrow> nat \<Rightarrow> rng \<Rightarrow> fault + (mat \<times> real \<times> info_T) \<times> rng" where
  \<comment> \<open>\<^verbatim>\<open>SmoothCFTest.optimize_freqs_width\<close>; the last argument is the global state of
      the generator at the call, the result carries the state at the return\<close>
  "optimize_freqs_width bits normal ad tst n_test_freqs max_iter freqs_step_size
       gwidth_step_size batch_proportion tol_fun seed g =
     (let J = n_test_freqs;
          d = dim tst;
          rand_state = g;
          g1 = np_random_seed seed;
          (T0, g2) = randn normal g1 J d;
          g3 = rand_state
      in optimize_T_gaussian_width bits ad tst T0 construct_z_theano max_iter freqs_step_size
           gwidth_step_size batch_proportion tol_fun g3)"

definition optimize_gwidth ::
  "(nat \<Rightarrow> nat \<Rightarrow> nat) \<Rightarrow> grads \<Rightarrow> TSTData \<Rightarrow> mat \<Rightarrow> nat \<Rightarrow> real \<Rightarrow> real \<Rightarrow> real \<Rightarrow> rng
    \<Rightarrow> fault + (real \<times> info_gw) \<times> rng" where
  \<comment> \<open>\<^verbatim>\<open>SmoothCFTest.optimize_gwidth\<close>\<close>
  "optimize_gwidth bits ad tst T max_iter gwidth_step_size batch_proportion tol_fun g =
     optimize_gaussian_width bits ad tst T construct_z_theano max_iter gwidth_step_size
       batch_proportion tol_fun g"

section \<open>Concrete inputs\<close>

definition demo_bits :: "nat \<Rightarrow> nat \<Rightarrow> nat" where
  \<comment> \<open>a generator whose raw outputs are all zero\<close>
  "demo_bits key pos = 0"

definition chi2_sf_even :: "real \<Rightarrow> nat \<Rightarrow> real" where
  \<comment> \<open>for an even number k of degrees of freedom, the survival function of the
      chi-squared distribution in closed form\<close>
  "chi2_sf_even x k =
     (if x \<le> 0 then 1 else exp (- x / 2) * (\<Sum>i<k div 2. (x / 2) ^ i / fact i))"

definition pi_X :: "real \<Rightarrow> mat" where
  \<comment> \<open>three one-dimensional points, w times 0, pi/2 and -pi/2\<close>
  "pi_X w = [[0], [pi / 2 * w], [- (pi / 2) * w]]"

definition zero_Y :: mat where
  "zero_Y = [[0], [0], [0]]"

definition env_c :: real where
  \<comment> \<open>the Gaussian envelope at pi/2\<close>
  "env_c = exp (- (pi / 2 * (pi / 2)) / 2)"

definition corners_X :: mat where
  "corners_X = [[1, 0, 0], [0, 1, 0], [0, 0, 1]]"

definition corner_locs :: mat where
  "corner_locs = [[1, 0, 0], [0, 1, 0]]"

definition demo_normal :: "nat \<Rightarrow> nat \<Rightarrow> real" where
  \<comment> \<open>a generator whose Gaussian deviates are all one\<close>
  "demo_normal key pos = 1"

definition lin_z :: feature_map where
  \<comment> \<open>a feature map for the optimizers: Z = X - w Y\<close>
  "lin_z X Y T w = Inr (msub X (mmap (\<lambda>y. w * y) Y))"

definition lin_data :: TSTData where
  "lin_data = \<lparr>data_X = [[4], [2]], data_Y = [[1], [-1]], mean_std = 1\<rparr>"

definition lin_grads :: grads where
  \<comment> \<open>the gradients of the objective of \<open>lin_z\<close> and of \<open>flat_z\<close> on \<open>lin_data\<close>,
      which is 18 / (1 - q * q)^2 at the value q of the width variable, whatever T: the
      graph of the gradient with respect to T is the constant zero\<close>
  "lin_grads = \<lparr>gra_T = Constant_zero,
                 gra_gamma_sq = (\<lambda>Xb Yb T q. 72 * q / (1 - q * q) ^ 3)\<rparr>"


definition const_z :: feature_map where
  \<comment> \<open>a feature map that depends neither on T nor on the width: Z = X - Y\<close>
  "const_z X Y T w = Inr (msub X Y)"

definition const_data :: TSTData where
  "const_data = \<lparr>data_X = [[4], [2]], data_Y = [[0], [2]], mean_std = 1\<rparr>"

definition zero_grads :: grads where
  \<comment> \<open>the gradients of a constant objective\<close>
  "zero_grads = \<lparr>gra_T = Constant_zero,
                  gra_gamma_sq = (\<lambda>Xb Yb T q. 0)\<rparr>"

definition unit_grads :: grads where
  \<comment> \<open>an arbitrary differentiation oracle whose gradient with respect to T is not zero\<close>
  "unit_grads = \<lparr>gra_T = Evaluated (\<lambda>Xb Yb T q. map (map (\<lambda>t. 1)) T),
                  gra_gamma_sq = (\<lambda>Xb Yb T q. 0)\<rparr>"


definition pi_data :: TSTData where
  \<comment> \<open>the points of \<open>pi_X\<close> at the initial bandwidth (1/10000)^2 of the optimizers\<close>
  "pi_data = \<lparr>data_X = pi_X (1 / 100000000), data_Y = zero_Y, mean_std = 0\<rparr>"

definition same_data :: TSTData where
  \<comment> \<open>two equal samples\<close>
  "same_data = \<lparr>data_X = [[0], [1]], data_Y = [[0], [1]], mean_std = 1 / 2\<rparr>"

section \<open>Evaluation at the concrete inputs\<close>

lemmas array_defs = aligned_def smooth_features_def sdiv_def sumsq_def dot_T_def dot_def mmap_def
  row_scale_def hstack_def msub_def vsub_def vscale_def Let_def

lemmas solve_defs = gesv_def square_def unit_vec_def gauss.simps lead_def normalise_def
  eliminate_def back_subst_def vscale_def vsub_def dot_def Let_def

lemmas stat_defs = quad_stat_def np_cov_T_def np_mean0_def np_linalg_solve_def

lemma exp_partial_sum:
  assumes "0 \<le> (y::real)"
  shows "(\<Sum>i<m. y ^ i / fact i) \<le> exp y"
proof -
  have s: "summable (\<lambda>n. y ^ n /\<^sub>R fact n)" by (rule summable_exp_generic)
  have "(\<Sum>i<m. y ^ i /\<^sub>R fact i) \<le> (\<Sum>n. y ^ n /\<^sub>R fact n)"
    using assms by (intro sum_le_suminf [OF s]) simp_all
  then show ?thesis by (simp add: exp_def divide_inverse mult.commute)
qed

lemma chi2_sf_even_range: "0 \<le> chi2_sf_even x k \<and> chi2_sf_even x k \<le> 1"
proof (cases "x \<le> 0")
  case True
  then show ?thesis by (simp add: chi2_sf_even_def)
next
  case False
  then have y: "0 \<le> x / 2" by simp
  let ?p = "\<Sum>i<k div 2. (x / 2) ^ i / fact i"
  have p0: "0 \<le> ?p" using y by (intro sum_nonneg) simp
  have p1: "?p \<le> exp (x / 2)" using exp_partial_sum [OF y] .
  have "exp (- x / 2) * ?p \<le> exp (- x / 2) * exp (x / 2)"
    using p1 by (intro mult_left_mono) simp_all
  also have "\<dots> = 1" by (simp add: exp_add [symmetric])
  finally have "exp (- x / 2) * ?p \<le> 1" .
  moreover have "0 \<le> exp (- x / 2) * ?p" using p0 by simp
  ultimately show ?thesis using False by (simp add: chi2_sf_even_def)
qed

lemma pi_Z:
  "w \<noteq> 0 \<Longrightarrow> construct_z (pi_X w) zero_Y [[1]] w = Inr [[0, 0], [env_c, -1], [- env_c, -1]]"
  by (simp add: construct_z_def pi_X_def zero_Y_def array_defs env_c_def)

lemma quad_pi:
  "c \<noteq> 0 \<Longrightarrow> quad_stat n [[0, 0], [c, -1], [- c, -1]] = Inr (real n * (4 / 3))"
  by (simp add: stat_defs solve_defs)

lemma scf_stat_pi:
  "SmoothCFTest_compute_stat \<lparr>alpha = a, test_freqs = Some [[1]], scf_gaussian_width = 1\<rparr>
     \<lparr>data_X = pi_X 1, data_Y = zero_Y, mean_std = m\<rparr> = Inr 4"
proof -
  have "env_c \<noteq> 0" by (simp add: env_c_def)
  then show ?thesis
    by (simp add: SmoothCFTest_compute_stat_def pi_Z quad_pi) (simp add: pi_X_def)
qed

lemma kernel_corners:
  "asym_gauss_kernel corners_X corner_locs 1
     = Inr [[1, exp (-2)], [exp (-2), 1], [exp (-2), exp (-2)]]"
  by (simp add: asym_gauss_kernel_def corners_X_def corner_locs_def array_defs)

lemma kernel_one:
  "asym_gauss_kernel [[0, 0, 1]] corner_locs 1 = Inr [[exp (-2), exp (-2)]]"
  by (simp add: asym_gauss_kernel_def corner_locs_def array_defs)

lemma kernel_three:
  "asym_gauss_kernel [[0, 0, 1], [0, 0, 1], [0, 0, 1]] corner_locs 1
     = Inr [[exp (-2), exp (-2)], [exp (-2), exp (-2)], [exp (-2), exp (-2)]]"
  by (simp add: asym_gauss_kernel_def corner_locs_def array_defs)

lemma quad_corners:
  "b \<noteq> 0 \<Longrightarrow> quad_stat n [[b, 0], [0, b], [0, 0]] = Inr (real n * (4 / 3))"
  by (simp add: stat_defs solve_defs)

lemma me_stat_corners:
  "MeanEmbeddingTest_compute_stat
     \<lparr>alpha = a, test_locs = Some corner_locs, me_gaussian_width = 1\<rparr>
     \<lparr>data_X = corners_X, data_Y = [[0, 0, 1], [0, 0, 1], [0, 0, 1]], mean_std = m\<rparr> = Inr 4"
proof -
  have b: "1 - exp (- 2 :: real) \<noteq> 0" by simp
  show ?thesis
    using quad_corners [OF b]
    by (simp add: MeanEmbeddingTest_compute_stat_def kernel_corners kernel_three np_sub_def
          msub_def vsub_def)
       (simp add: corners_X_def)
qed

lemma scf_stat_same:
  "SmoothCFTest_compute_stat \<lparr>alpha = a, test_freqs = Some [[1]], scf_gaussian_width = 1\<rparr>
     \<lparr>data_X = [[0], [1]], data_Y = [[0], [1]], mean_std = m\<rparr> = Inl (Raised LinAlgError)"
  by (simp add: SmoothCFTest_compute_stat_def construct_z_def array_defs stat_defs solve_defs)

section \<open>The loops, one iteration at a time\<close>

lemma choice_rng:
  "np_random_choice bits g n k = Inr (ind, g') \<Longrightarrow>
   rng_key g' = rng_key g \<and> rng_pos g' = rng_pos g + (n - 1)"
  by (auto simp: np_random_choice_def split: if_splits)

lemma loop_gw_continue:
  assumes "np_random_choice bits g (length X) (batch_size bp (length X)) = Inr (ind, g1)"
    and "draw_batch func X Y ind st = Inr (s, st1)"
    and "\<not> (t \<ge> 2 \<and> \<bar>S[t := s] ! t - S[t := s] ! (t - 1)\<bar> \<le> tol)"
    and "Suc t < mi"
  shows "loop_gw bits func X Y mi bp tol t (g, st, S, gams)
           = loop_gw bits func X Y mi bp tol (Suc t)
               (g1, st1, S[t := s], gams[t := (gamma_sq_th st1)\<^sup>2])"
  using assms by (subst loop_gw.simps) (auto simp: Let_def)

lemma loop_gw_stop:
  assumes "np_random_choice bits g (length X) (batch_size bp (length X)) = Inr (ind, g1)"
    and "draw_batch func X Y ind st = Inr (s, st1)"
    and "(t \<ge> 2 \<and> \<bar>S[t := s] ! t - S[t := s] ! (t - 1)\<bar> \<le> tol) \<or> \<not> Suc t < mi"
  shows "loop_gw bits func X Y mi bp tol t (g, st, S, gams)
           = Inr (t, g1, S[t := s], gams[t := (gamma_sq_th st1)\<^sup>2])"
  using assms by (subst loop_gw.simps) (auto simp: Let_def)

lemma loop_gw_raise:
  assumes "np_random_choice bits g (length X) (batch_size bp (length X)) = Inr (ind, g1)"
    and "draw_batch func X Y ind st = Inl e"
  shows "loop_gw bits func X Y mi bp tol t (g, st, S, gams) = Inl e"
  using assms by (subst loop_gw.simps) simp

lemma loop_T_continue:
  assumes "np_random_choice bits g (length X) (batch_size bp (length X)) = Inr (ind, g1)"
    and "draw_batch func X Y ind st = Inr (s, st1)"
    and "\<not> (t \<ge> 2 \<and> \<bar>S[t := s] ! t - S[t := s] ! (t - 1)\<bar> \<le> tol)"
    and "Suc t < mi"
  shows "loop_T bits func X Y mi bp tol t (g, st, S, Ts, gams)
           = loop_T bits func X Y mi bp tol (Suc t)
               (g1, st1, S[t := s], Ts[t := T_th st1], gams[t := (gamma_sq_th st1)\<^sup>2])"
  using assms by (subst loop_T.simps) (auto simp: Let_def)

lemma loop_T_stop:
  assumes "np_random_choice bits g (length X) (batch_size bp (length X)) = Inr (ind, g1)"
    and "draw_batch func X Y ind st = Inr (s, st1)"
    and "(t \<ge> 2 \<and> \<bar>S[t := s] ! t - S[t := s] ! (t - 1)\<bar> \<le> tol) \<or> \<not> Suc t < mi"
  shows "loop_T bits func X Y mi bp tol t (g, st, S, Ts, gams)
           = Inr (int t, g1, S[t := s], Ts[t := T_th st1], gams[t := (gamma_sq_th st1)\<^sup>2])"
  using assms by (subst loop_T.simps) (auto simp: Let_def)

lemma loop_T_handler:
  assumes "np_random_choice bits g (length X) (batch_size bp (length X)) = Inr (ind, g1)"
    and "draw_batch func X Y ind st = Inl (Raised e)"
  shows "loop_T bits func X Y mi bp tol t (g, st, S, Ts, gams) = Inr (int t - 1, g1, S, Ts, gams)"
  using assms by (subst loop_T.simps) simp

lemma loop_T_cases:
  assumes "loop_T bits func X Y mi bp tol t (g, st, S, Ts, gams) = Inr R"
  obtains
    (handler) ind g1 e where
      "np_random_choice bits g (length X) (batch_size bp (length X)) = Inr (ind, g1)"
      "draw_batch func X Y ind st = Inl (Raised e)"
      "R = (int t - 1, g1, S, Ts, gams)"
  | (stop) ind g1 s st1 where
      "np_random_choice bits g (length X) (batch_size bp (length X)) = Inr (ind, g1)"
      "draw_batch func X Y ind st = Inr (s, st1)"
      "(t \<ge> 2 \<and> \<bar>S[t := s] ! t - S[t := s] ! (t - 1)\<bar> \<le> tol) \<or> \<not> Suc t < mi"
      "R = (int t, g1, S[t := s], Ts[t := T_th st1], gams[t := (gamma_sq_th st1)\<^sup>2])"
  | (continue) ind g1 s st1 where
      "np_random_choice bits g (length X) (batch_size bp (length X)) = Inr (ind, g1)"
      "draw_batch func X Y ind st = Inr (s, st1)"
      "\<not> (t \<ge> 2 \<and> \<bar>S[t := s] ! t - S[t := s] ! (t - 1)\<bar> \<le> tol)"
      "Suc t < mi"
      "loop_T bits func X Y mi bp tol (Suc t)
         (g1, st1, S[t := s], Ts[t := T_th st1], gams[t := (gamma_sq_th st1)\<^sup>2]) = Inr R"
proof -
  note u = assms [unfolded loop_T.simps [of bits func X Y mi bp tol t g st S Ts gams]]
  show thesis using u handler stop continue
    by (auto simp: Let_def split: sum.splits prod.splits fault.splits if_splits)
qed

lemma loop_gw_cases:
  assumes "loop_gw bits func X Y mi bp tol t (g, st, S, gams) = Inr R"
  obtains
    (stop) ind g1 s st1 where
      "np_random_choice bits g (length X) (batch_size bp (length X)) = Inr (ind, g1)"
      "draw_batch func X Y ind st = Inr (s, st1)"
      "(t \<ge> 2 \<and> \<bar>S[t := s] ! t - S[t := s] ! (t - 1)\<bar> \<le> tol) \<or> \<not> Suc t < mi"
      "R = (t, g1, S[t := s], gams[t := (gamma_sq_th st1)\<^sup>2])"
  | (continue) ind g1 s st1 where
      "np_random_choice bits g (length X) (batch_size bp (length X)) = Inr (ind, g1)"
      "draw_batch func X Y ind st = Inr (s, st1)"
      "\<not> (t \<ge> 2 \<and> \<bar>S[t := s] ! t - S[t := s] ! (t - 1)\<bar> \<le> tol)"
      "Suc t < mi"
      "loop_gw bits func X Y mi bp tol (Suc t)
         (g1, st1, S[t := s], gams[t := (gamma_sq_th st1)\<^sup>2]) = Inr R"
proof -
  note u = assms [unfolded loop_gw.simps [of bits func X Y mi bp tol t g st S gams]]
  show thesis using u stop continue
    by (auto simp: Let_def split: sum.splits prod.splits if_splits)
qed

text \<open>
  What a run of the loop of \<^verbatim>\<open>optimize_T_gaussian_width\<close> from index t leaves: the
  arrays keep their lengths, the final index is at least t - 1, every entry of
  \<^verbatim>\<open>gams\<close> from t to the final index is a square, the entries before t are untouched,
  and the generator has advanced by one draw of a batch per iteration entered.
\<close>

lemma loop_T_inv:
  assumes "loop_T bits func X Y mi bp tol t (g, st, S, Ts, gams) = Inr (t', g', S', Ts', gams')"
  shows "length gams' = length gams \<and> length S' = length S \<and> length Ts' = length Ts
         \<and> int t - 1 \<le> t' \<and> t' \<le> int (max t (mi - 1))
         \<and> (\<forall>i. t \<le> i \<and> int i \<le> t' \<and> i < length gams \<longrightarrow> (\<exists>q. gams' ! i = q\<^sup>2))
         \<and> (\<forall>i<t. gams' ! i = gams ! i)
         \<and> rng_key g' = rng_key g
         \<and> (\<exists>k\<ge>1. rng_pos g' = rng_pos g + k * (length X - 1))"
  using assms
proof (induction "mi - t" arbitrary: t g st S Ts gams)
  case 0
  from "0.prems" show ?case
  proof (cases rule: loop_T_cases)
    case (handler ind g1 e)
    then show ?thesis using choice_rng [OF handler(1)]
      by (auto intro: exI [of _ 1])
  next
    case (stop ind g1 s st1)
    then show ?thesis using choice_rng [OF stop(1)]
      by (auto simp: nth_list_update intro: exI [of _ 1])
  next
    case (continue ind g1 s st1)
    then show ?thesis using 0 by simp
  qed
next
  case (Suc n)
  from Suc.prems show ?case
  proof (cases rule: loop_T_cases)
    case (handler ind g1 e)
    then show ?thesis using choice_rng [OF handler(1)]
      by (auto intro: exI [of _ 1])
  next
    case (stop ind g1 s st1)
    then show ?thesis using choice_rng [OF stop(1)]
      by (auto simp: nth_list_update intro: exI [of _ 1])
  next
    case (continue ind g1 s st1)
    have n: "n = mi - Suc t" using Suc.hyps(2) by simp
    note ih = Suc.hyps(1) [OF n continue(5)]
    from ih obtain k where k: "k \<ge> 1" "rng_pos g' = rng_pos g1 + k * (length X - 1)" by blast
    have pos: "rng_pos g' = rng_pos g + (Suc k) * (length X - 1)"
      using k choice_rng [OF continue(1)] by simp
    have sq: "\<forall>i. t \<le> i \<and> int i \<le> t' \<and> i < length gams \<longrightarrow> (\<exists>q. gams' ! i = q\<^sup>2)"
    proof (intro allI impI)
      fix i assume i: "t \<le> i \<and> int i \<le> t' \<and> i < length gams"
      show "\<exists>q. gams' ! i = q\<^sup>2"
      proof (cases "i = t")
        case True
        then have "gams' ! i = gams[t := (gamma_sq_th st1)\<^sup>2] ! i" using ih by simp
        then show ?thesis using True i by auto
      next
        case False
        then show ?thesis using ih i by simp
      qed
    qed
    have old: "\<forall>i<t. gams' ! i = gams ! i" using ih by simp
    show ?thesis using ih sq old pos choice_rng [OF continue(1)] continue(4)
      by (auto intro: exI [of _ "Suc k"])
  qed
qed

lemma loop_gw_inv:
  assumes "loop_gw bits func X Y mi bp tol t (g, st, S, gams) = Inr (t', g', S', gams')"
  shows "length gams' = length gams \<and> length S' = length S
         \<and> t \<le> t' \<and> t' \<le> max t (mi - 1)
         \<and> (\<forall>i. t \<le> i \<and> i \<le> t' \<and> i < length gams \<longrightarrow> (\<exists>q. gams' ! i = q\<^sup>2))
         \<and> (\<forall>i<t. gams' ! i = gams ! i)
         \<and> rng_key g' = rng_key g
         \<and> (\<exists>k\<ge>1. rng_pos g' = rng_pos g + k * (length X - 1))"
  using assms
proof (induction "mi - t" arbitrary: t g st S gams)
  case 0
  from "0.prems" show ?case
  proof (cases rule: loop_gw_cases)
    case (stop ind g1 s st1)
    then show ?thesis using choice_rng [OF stop(1)]
      by (auto simp: nth_list_update intro: exI [of _ 1])
  next
    case (continue ind g1 s st1)
    then show ?thesis using 0 by simp
  qed
next
  case (Suc n)
  from Suc.prems show ?case
  proof (cases rule: loop_gw_cases)
    case (stop ind g1 s st1)
    then show ?thesis using choice_rng [OF stop(1)]
      by (auto simp: nth_list_update intro: exI [of _ 1])
  next
    case (continue ind g1 s st1)
    have n: "n = mi - Suc t" using Suc.hyps(2) by simp
    note ih = Suc.hyps(1) [OF n continue(5)]
    from ih obtain k where k: "k \<ge> 1" "rng_pos g' = rng_pos g1 + k * (length X - 1)" by blast
    have pos: "rng_pos g' = rng_pos g + (Suc k) * (length X - 1)"
      using k choice_rng [OF continue(1)] by simp
    have sq: "\<forall>i. t \<le> i \<and> i \<le> t' \<and> i < length gams \<longrightarrow> (\<exists>q. gams' ! i = q\<^sup>2)"
    proof (intro allI impI)
      fix i assume i: "t \<le> i \<and> i \<le> t' \<and> i < length gams"
      show "\<exists>q. gams' ! i = q\<^sup>2"
      proof (cases "i = t")
        case True
        then have "gams' ! i = gams[t := (gamma_sq_th st1)\<^sup>2] ! i" using ih by simp
        then show ?thesis using True i by auto
      next
        case False
        then show ?thesis using ih i by simp
      qed
    qed
    have old: "\<forall>i<t. gams' ! i = gams ! i" using ih by simp
    show ?thesis using ih sq old pos choice_rng [OF continue(1)] continue(4)
      by (auto intro: exI [of _ "Suc k"])
  qed
qed

section \<open>Runs of the optimizers at the concrete inputs\<close>

lemmas th_defs = th_objective_def matrix_inverse_def

lemma choice_two:
  assumes "length X = 2"
  shows "np_random_choice demo_bits g (length X) (batch_size 1 (length X))
           = Inr ([1, 0], g\<lparr>rng_pos := rng_pos g + 1\<rparr>)"
proof -
  have b: "batch_size 1 2 = 2" by (simp add: batch_size_def py_int_def)
  have u: "[0..<2] = [0, 1]" by (simp add: upt_conv_Cons)
  have s: "shuffle demo_bits k p 1 [0, 1] = [1, 0]" for k p
    by (simp add: demo_bits_def)
  show ?thesis unfolding assms b using s by (simp add: np_random_choice_def u)
qed

lemma choice_three:
  assumes "length X = 3"
  shows "np_random_choice demo_bits g (length X) (batch_size 1 (length X))
           = Inr ([1, 2, 0], g\<lparr>rng_pos := rng_pos g + 2\<rparr>)"
proof -
  have b: "batch_size 1 3 = 3" by (simp add: batch_size_def py_int_def)
  have u: "[0..<3] = [0, 1, 2]" by (simp add: upt_conv_Cons)
  have s2: "shuffle demo_bits k p (Suc (Suc 0)) [0, 1, 2] = [1, 2, 0]" for k p
    by (simp add: demo_bits_def)
  have s: "shuffle demo_bits k p 2 [0, 1, 2] = [1, 2, 0]" for k p
    using s2 [of k p] by (simp only: numeral_2_eq_2)
  show ?thesis unfolding assms b using s by (simp add: np_random_choice_def u)
qed

lemma frac32: "z \<noteq> 0 \<Longrightarrow> y = 32 * z \<Longrightarrow> x = 32 * w \<Longrightarrow> x / y = w / (z::real)"
  by simp

lemma one_col_objective:
  assumes "a \<noteq> b"
  shows "th_objective (\<lambda>X Y T w. Inr [[a], [b]]) 2 Xb Yb T q = Inr ((a + b)\<^sup>2 * 2 / (a - b)\<^sup>2)"
proof -
  have d: "(a - (a + b) / 2) * (a - (a + b) / 2) + (b - (a + b) / 2) * (b - (a + b) / 2) \<noteq> 0"
  proof -
    have "(a - (a + b) / 2) * (a - (a + b) / 2) + (b - (a + b) / 2) * (b - (a + b) / 2) = (a - b)\<^sup>2 / 2"
      by (simp add: power2_eq_square field_simps)
    then show ?thesis using assms by simp
  qed
  have e: "a * a + b * b - a * (b * 2) \<noteq> 0"
  proof -
    have "a * a + b * b - a * (b * 2) = (a - b)\<^sup>2"
      by (simp add: power2_eq_square field_simps)
    then show ?thesis using assms by simp
  qed
  show ?thesis
    using d
    apply (simp add: th_defs array_defs solve_defs)
    apply (simp add: power2_eq_square field_simps)
    apply (rule frac32)
    using e apply simp
     apply simp
    apply simp
    done
qed

lemma th_objective_at:
  "func_z Xb Yb T (q * q) = Inr Z \<Longrightarrow>
   th_objective func_z nx Xb Yb T q = th_objective (\<lambda>X Y T w. Inr Z) nx Xb Yb T q"
  by (simp add: th_objective_def)

lemma lin_objective:
  assumes "q * q \<noteq> 1"
  shows "th_objective lin_z 2 [[2], [4]] [[-1], [1]] T q = Inr (18 / (1 - q * q)\<^sup>2)"
proof -
  have z: "lin_z [[2], [4]] [[-1], [1]] T (q * q) = Inr [[2 + q * q], [4 - q * q]]"
    by (simp add: lin_z_def array_defs)
  have ne: "2 + q * q \<noteq> 4 - q * q" using assms by auto
  have d: "1 - q * q \<noteq> 0" using assms by simp
  have "(2 + q * q + (4 - q * q))\<^sup>2 * 2 / (2 + q * q - (4 - q * q))\<^sup>2 = 72 / (2 * (q * q - 1))\<^sup>2"
    by (simp add: algebra_simps)
  also have "\<dots> = 72 / (4 * (1 - q * q)\<^sup>2)"
    by (simp add: power2_eq_square algebra_simps)
  also have "\<dots> = 18 / (1 - q * q)\<^sup>2" by simp
  finally show ?thesis
    using th_objective_at [of lin_z "[[2], [4]]" "[[-1], [1]]" T q _ 2, OF z] one_col_objective [OF ne, of "[[2], [4]]" "[[-1], [1]]" T q]
    by simp
qed

lemma lin_grads_derivative:
  assumes "q * q \<noteq> 1"
  shows "((\<lambda>q. 18 / (1 - q * q)\<^sup>2) has_real_derivative gra_gamma_sq lin_grads Xb Yb T q) (at q)"
proof -
  have d: "1 - q * q \<noteq> 0" using assms by simp
  have alg: "(0 * D\<^sup>2 - 18 * - (4 * (q * D))) / (D\<^sup>2 * D\<^sup>2) = 72 * q / D ^ 3"
    if "D \<noteq> 0" for D :: real
    using that by (simp add: field_simps power2_eq_square power3_eq_cube)
  show ?thesis
    unfolding lin_grads_def
    apply simp
    apply (rule derivative_eq_intros | simp add: d)+
    using assms apply simp
    apply (rule alg [OF d])
    done
qed

lemma const_objective:
  "th_objective const_z 2 [[2], [4]] [[2], [0]] T q = Inr 2"
  by (simp add: th_defs const_z_def array_defs solve_defs)

lemma const_step:
  "draw_batch (func_gw const_z zero_grads 2 gs) [[4], [2]] [[0], [2]] [1, 0] st
     = Inr (2, st\<lparr>iter_th := iter_th st + 1\<rparr>)"
  by (simp add: draw_batch_def take_rows_def func_gw_def const_objective zero_grads_def gamma_update_def)

lemma const_loop:
  assumes "length S = 400"
  shows "loop_gw demo_bits (func_gw const_z zero_grads 2 gs) [[4], [2]] [[0], [2]] 400 1 (1 / 1000) 0
     (g, st, S, gams)
   = Inr (2, g\<lparr>rng_pos := rng_pos g + 3\<rparr>, S[0 := 2, 1 := 2, 2 := 2],
          gams[0 := (gamma_sq_th st)\<^sup>2, 1 := (gamma_sq_th st)\<^sup>2, 2 := (gamma_sq_th st)\<^sup>2])"
proof -
  let ?f = "func_gw const_z zero_grads 2 gs"
  let ?L = "loop_gw demo_bits ?f [[4], [2]] [[0], [2]] 400 1 (1 / 1000)"
  let ?q = "(gamma_sq_th st)\<^sup>2"
  have l: "length [[4], [2::real]] = 2" by simp
  have "?L 0 (g, st, S, gams)
      = ?L (Suc 0) (g\<lparr>rng_pos := rng_pos g + 1\<rparr>, st\<lparr>iter_th := iter_th st + 1\<rparr>,
                    S[0 := 2], gams[0 := ?q])"
    by (subst loop_gw_continue [OF choice_two [OF l] const_step]) simp_all
  also have "\<dots> = ?L (Suc (Suc 0)) (g\<lparr>rng_pos := rng_pos g + 2\<rparr>, st\<lparr>iter_th := iter_th st + 2\<rparr>,
                    S[0 := 2, 1 := 2], gams[0 := ?q, 1 := ?q])"
    by (subst loop_gw_continue [OF choice_two [OF l] const_step]) simp_all
  also have "\<dots> = Inr (Suc (Suc 0), g\<lparr>rng_pos := rng_pos g + 3\<rparr>, S[0 := 2, 1 := 2, 2 := 2],
                    gams[0 := ?q, 1 := ?q, 2 := ?q])"
    using assms
    by (subst loop_gw_stop [OF choice_two [OF l] const_step]) (simp_all add: numeral_2_eq_2)
  finally show ?thesis by (simp add: numeral_2_eq_2)
qed

lemma rep400: "replicate 400 (0::real) = 0 # 0 # 0 # replicate 397 0"
proof -
  have "(400::nat) = Suc (Suc (Suc 397))" by simp
  then show ?thesis by (simp only: replicate_Suc)
qed

lemma const_run:
  "optimize_gaussian_width demo_bits zero_grads const_data T const_z 400 gs 1 (1 / 1000) g
     = Inr (((10001 / 10000)\<^sup>2,
             \<lparr>info_T = T, info_gw_gwidths = [(10001 / 10000)\<^sup>2, (10001 / 10000)\<^sup>2],
              info_gw_obj_values = [2, 2]\<rparr>),
            g\<lparr>rng_pos := rng_pos g + 3\<rparr>)"
proof -
  have l: "length (replicate 400 (0::real)) = 400" by simp
  have n: "length [[4], [2::real]] = 2" by simp
  show ?thesis
    unfolding optimize_gaussian_width_def const_data_def
    by (simp add: n const_loop [OF l] Let_def del: length_Cons list.size)
       (simp add: rep400 numeral_2_eq_2)
qed

lemma lin_step_one:
  "draw_batch (func_gw lin_z lin_grads 2 (10001 / 10000)) [[4], [2]] [[1], [-1]] [1, 0]
      \<lparr>T_th = T, iter_th = 1, gamma_sq_th = 10001 / 10000\<rparr>
     = Inr (18 / (1 - (10001 / 10000) * (10001 / 10000))\<^sup>2, \<lparr>T_th = T, iter_th = 2, gamma_sq_th = 0\<rparr>)"
proof -
  have o: "th_objective lin_z 2 [[2], [4]] [[-1], [1]] T (10001 / 10000)
             = Inr (18 / (1 - (10001 / 10000) * (10001 / 10000))\<^sup>2)"
    by (rule lin_objective) simp
  have u: "gamma_update (10001 / 10000) 1 (10001 / 10000)
             (gra_gamma_sq lin_grads [[2], [4]] [[-1], [1]] T (10001 / 10000)) = 0"
    by (simp add: gamma_update_def lin_grads_def power3_eq_cube)
  show ?thesis
    using o u by (simp add: draw_batch_def take_rows_def func_gw_def)
qed

lemma lin_step_two:
  "draw_batch (func_gw lin_z lin_grads 2 (10001 / 10000)) [[4], [2]] [[1], [-1]] [1, 0]
      \<lparr>T_th = T, iter_th = 2, gamma_sq_th = 0\<rparr>
     = Inr (18, \<lparr>T_th = T, iter_th = 3, gamma_sq_th = 0\<rparr>)"
proof -
  have o: "th_objective lin_z 2 [[2], [4]] [[-1], [1]] T 0 = Inr (18 / (1 - 0 * 0)\<^sup>2)"
    by (rule lin_objective) simp
  have u: "gamma_update (10001 / 10000) 2 0 (gra_gamma_sq lin_grads [[2], [4]] [[-1], [1]] T 0) = 0"
    by (simp add: gamma_update_def lin_grads_def)
  show ?thesis
    using o u by (simp add: draw_batch_def take_rows_def func_gw_def)
qed

lemma lin_run:
  "optimize_gaussian_width demo_bits lin_grads lin_data T lin_z 2 (10001 / 10000) 1 (1 / 1000) g
     = Inr ((0, \<lparr>info_T = T, info_gw_gwidths = [0],
                 info_gw_obj_values = [18 / (1 - (10001 / 10000) * (10001 / 10000))\<^sup>2]\<rparr>),
            g\<lparr>rng_pos := rng_pos g + 2\<rparr>)"
proof -
  let ?f = "func_gw lin_z lin_grads 2 (10001 / 10000)"
  let ?L = "loop_gw demo_bits ?f [[4], [2]] [[1], [-1]] 2 1 (1 / 1000)"
  let ?s = "18 / (1 - (10001 / 10000) * (10001 / 10000))\<^sup>2 :: real"
  have l: "length [[4], [2::real]] = 2" by simp
  have "?L 0 (g, \<lparr>T_th = T, iter_th = 1, gamma_sq_th = 10001 / 10000\<rparr>, [0, 0], [0, 0])
      = ?L (Suc 0) (g\<lparr>rng_pos := rng_pos g + 1\<rparr>, \<lparr>T_th = T, iter_th = 2, gamma_sq_th = 0\<rparr>,
                    [?s, 0], [0, 0])"
    by (subst loop_gw_continue [OF choice_two [OF l] lin_step_one]) simp_all
  also have "\<dots> = Inr (Suc 0, g\<lparr>rng_pos := rng_pos g + 2\<rparr>, [?s, 18], [0, 0])"
    by (subst loop_gw_stop [OF choice_two [OF l] lin_step_two]) simp_all
  finally have L: "?L 0 (g, \<lparr>T_th = T, iter_th = 1, gamma_sq_th = 10001 / 10000\<rparr>, [0, 0], [0, 0])
      = Inr (Suc 0, g\<lparr>rng_pos := rng_pos g + 2\<rparr>, [?s, 18], [0, 0])" .
  have r: "replicate 2 (0::real) = [0, 0]" by (simp add: numeral_2_eq_2)
  show ?thesis
    unfolding optimize_gaussian_width_def lin_data_def
    by (simp add: l r L Let_def del: length_Cons list.size One_nat_def)
qed

lemma same_Z:
  "w \<noteq> 0 \<Longrightarrow> construct_z_theano [[1], [0]] [[1], [0]] [[1]] w = Inr [[0, 0], [0, 0]]"
  by (simp add: construct_z_theano_def array_defs)

lemma same_objective:
  "q \<noteq> 0 \<Longrightarrow>
   th_objective construct_z_theano 2 [[1], [0]] [[1], [0]] [[1]] q = Inl (Raised LinAlgError)"
  by (simp add: th_objective_def same_Z) (simp add: matrix_inverse_def array_defs solve_defs)

lemma same_init_nonzero: "1 / 10000 + sqrt (1 / 2) \<noteq> (0::real)"
proof -
  have "0 \<le> sqrt (1 / 2 :: real)" by simp
  then show ?thesis by linarith
qed

lemma same_step_gw:
  "draw_batch (func_gw construct_z_theano ad 2 gs) [[0], [1]] [[0], [1]] [1, 0]
      \<lparr>T_th = [[1]], iter_th = 1, gamma_sq_th = 1 / 10000 + sqrt (1 / 2)\<rparr>
     = Inl (Raised LinAlgError)"
  using same_objective [OF same_init_nonzero]
  by (simp add: draw_batch_def take_rows_def func_gw_def)

lemma same_step_T:
  "draw_batch (func_T construct_z_theano ad 2 ts gs) [[0], [1]] [[0], [1]] [1, 0]
      \<lparr>T_th = [[1]], iter_th = 1, gamma_sq_th = 1 / 10000 + sqrt (1 / 2)\<rparr>
     = Inl (Raised LinAlgError)"
  using same_objective [OF same_init_nonzero]
  by (simp add: draw_batch_def take_rows_def func_T_def)

lemma same_run_gw:
  "optimize_gwidth demo_bits ad same_data [[1]] 400 gs 1 tol g = Inl (Raised LinAlgError)"
proof -
  have l: "length [[0], [1::real]] = 2" by simp
  have L: "loop_gw demo_bits (func_gw construct_z_theano ad 2 gs) [[0], [1]] [[0], [1]] 400 1 tol 0
      (g, \<lparr>T_th = [[1]], iter_th = 1, gamma_sq_th = 1 / 10000 + sqrt (1 / 2)\<rparr>, S, gams)
      = Inl (Raised LinAlgError)" for S gams
    by (rule loop_gw_raise [OF choice_two [OF l] same_step_gw])
  show ?thesis
    unfolding optimize_gwidth_def optimize_gaussian_width_def same_data_def
    by (simp add: l L Let_def del: length_Cons list.size One_nat_def)
qed

lemma randn_one: "randn demo_normal g 1 1 = ([[1]], g\<lparr>rng_pos := rng_pos g + 1\<rparr>)"
  by (simp add: randn_def demo_normal_def)

lemma same_run_T0:
  "optimize_T_gaussian_width demo_bits ad same_data [[1]] construct_z_theano 400 ts gs 1 tol g
     = Inl (Raised IndexError)"
proof -
  have l: "length [[0], [1::real]] = 2" by simp
  have L: "loop_T demo_bits (func_T construct_z_theano ad 2 ts gs) [[0], [1]] [[0], [1]] 400 1 tol 0
      (g, \<lparr>T_th = [[1]], iter_th = 1, gamma_sq_th = 1 / 10000 + sqrt (1 / 2)\<rparr>, S, Ts, gams)
      = Inr (-1, g\<lparr>rng_pos := rng_pos g + 1\<rparr>, S, Ts, gams)" for S Ts gams
    by (subst loop_T_handler [OF choice_two [OF l] same_step_T]) simp
  show ?thesis
    unfolding optimize_T_gaussian_width_def same_data_def
    by (simp add: Let_def l L del: length_Cons list.size One_nat_def)
qed

lemma same_run_T:
  "optimize_freqs_width demo_bits demo_normal ad same_data 1 400 ts gs 1 tol seed g
     = Inl (Raised IndexError)"
proof -
  have d: "dim same_data = 1" by (simp add: dim_def same_data_def)
  show ?thesis
    unfolding optimize_freqs_width_def
    by (simp add: d randn_one Let_def same_run_T0 del: One_nat_def)
qed

lemma pi_Z_theano:
  "w \<noteq> 0 \<Longrightarrow> construct_z_theano [[pi / 2 * w], [- (pi / 2) * w], [0]] [[0], [0], [0]] [[1]] w
     = Inr [[env_c, -1], [- env_c, -1], [0, 0]]"
  by (simp add: construct_z_theano_def array_defs env_c_def)

lemma pi_objective_Z:
  "c \<noteq> 0 \<Longrightarrow> th_objective (\<lambda>X Y T w. Inr [[c, -1], [- c, -1], [0, 0]]) 3 Xb Yb T q = Inr 6"
  by (simp add: th_defs array_defs solve_defs)

lemma pi_objective:
  assumes "q \<noteq> 0"
  shows "th_objective construct_z_theano 3 [[pi / 2 * (q * q)], [- (pi / 2) * (q * q)], [0]]
           [[0], [0], [0]] [[1]] q = Inr 6"
proof -
  have w: "q * q \<noteq> 0" using assms by simp
  have c: "env_c \<noteq> 0" by (simp add: env_c_def)
  show ?thesis
    using th_objective_at [of construct_z_theano "[[pi / 2 * (q * q)], [- (pi / 2) * (q * q)], [0]]"
        "[[0], [0], [0]]" "[[1]]" q _ 3, OF pi_Z_theano [OF w]] pi_objective_Z [OF c]
    by simp
qed

lemma pi_step:
  "draw_batch (func_T construct_z_theano unit_grads 3 (1 / 5) gs)
      (pi_X (1 / 100000000)) zero_Y [1, 2, 0]
      \<lparr>T_th = [[1]], iter_th = 1, gamma_sq_th = 1 / 10000\<rparr>
     = Inr (6, \<lparr>T_th = [[6 / 5]], iter_th = 2, gamma_sq_th = 1 / 10000\<rparr>)"
proof -
  have o: "th_objective construct_z_theano 3
             [[pi / 2 * (1 / 100000000)], [- (pi / 2) * (1 / 100000000)], [0]] [[0], [0], [0]] [[1]]
             (1 / 10000) = Inr 6"
    using pi_objective [of "1 / 10000"] by simp
  have t: "T_update (1 / 5) 1 (gra_T unit_grads) Xb Yb [[1]] q = Inr [[6 / 5]]" for Xb Yb q
    by (simp add: T_update_def unit_grads_def sumsq_def)
  have u: "gamma_update gs 1 (1 / 10000) (gra_gamma_sq unit_grads Xb Yb T q) = 1 / 10000" for Xb Yb T q
    by (simp add: gamma_update_def unit_grads_def)
  have rows: "take_rows (pi_X (1 / 100000000)) [1, 2, 0]
                = Inr [[pi / 2 * (1 / 100000000)], [- (pi / 2) * (1 / 100000000)], [0]]"
    by (simp add: take_rows_def pi_X_def)
  have rows0: "take_rows zero_Y [1, 2, 0] = Inr [[0], [0], [0]]"
    by (simp add: take_rows_def zero_Y_def)
  show ?thesis
    unfolding draw_batch_def rows rows0 func_T_def
    using o t u by (simp del: One_nat_def)
qed

lemma pi_run0:
  "optimize_T_gaussian_width demo_bits unit_grads pi_data [[1]] construct_z_theano 1 (1 / 5) gs 1 tol g
     = Inr (([[6 / 5]], 1 / 100000000,
             \<lparr>info_Ts = [[[6 / 5]]], info_T0 = [[1]], info_gwidths = [1 / 100000000],
              info_obj_values = [6]\<rparr>),
            g\<lparr>rng_pos := rng_pos g + 2\<rparr>)"
proof -
  have l: "length (pi_X (1 / 100000000)) = 3" by (simp add: pi_X_def)
  have L: "loop_T demo_bits (func_T construct_z_theano unit_grads 3 (1 / 5) gs)
             (pi_X (1 / 100000000)) zero_Y 1 1 tol 0
             (g, \<lparr>T_th = [[1]], iter_th = 1, gamma_sq_th = 1 / 10000\<rparr>, [0], [[[0]]], [0])
      = Inr (0, g\<lparr>rng_pos := rng_pos g + 2\<rparr>, [6], [[[6 / 5]]], [(1 / 10000)\<^sup>2])"
    by (subst loop_T_stop [OF choice_three [OF l] pi_step]) simp_all
  have r: "replicate 1 x = [x]" for x :: 'a by simp
  show ?thesis
    unfolding optimize_T_gaussian_width_def pi_data_def
    by (simp add: Let_def l r L power2_eq_square del: One_nat_def)
qed

lemma pi_run:
  "optimize_freqs_width demo_bits demo_normal unit_grads pi_data 1 1 (1 / 5) gs 1 tol seed g
     = Inr (([[6 / 5]], 1 / 100000000,
             \<lparr>info_Ts = [[[6 / 5]]], info_T0 = [[1]], info_gwidths = [1 / 100000000],
              info_obj_values = [6]\<rparr>),
            g\<lparr>rng_pos := rng_pos g + 2\<rparr>)"
proof -
  have d: "dim pi_data = 1" by (simp add: dim_def pi_data_def pi_X_def)
  show ?thesis
    unfolding optimize_freqs_width_def
    by (simp add: d randn_one Let_def pi_run0 del: One_nat_def)
qed

section \<open>What the optimizers return\<close>

lemma optimize_T_result:
  assumes "optimize_T_gaussian_width bits ad tst T0 func_z mi ts gs bp tol g = Inr ((T, gam, info), g')"
  obtains t1 S1 Ts1 gams1 where
    "loop_T bits (func_T func_z ad (length (data_X tst)) ts gs) (data_X tst) (data_Y tst) mi bp tol 0
       (g, \<lparr>T_th = T0, iter_th = 1, gamma_sq_th = 1 / 10000 + sqrt (mean_std tst)\<rparr>,
        replicate mi 0, replicate mi (map (map (\<lambda>_. 0)) T0), replicate mi 0)
     = Inr (t1, g', S1, Ts1, gams1)"
    "take (nat (t1 + 1)) Ts1 \<noteq> []"
    "T = last (take (nat (t1 + 1)) Ts1)"
    "gam = last (take (nat (t1 + 1)) gams1)"
    "info = \<lparr>info_Ts = take (nat (t1 + 1)) Ts1, info_T0 = T0,
             info_gwidths = take (nat (t1 + 1)) gams1, info_obj_values = take (nat (t1 + 1)) S1\<rparr>"
proof -
  let ?loop = "loop_T bits (func_T func_z ad (length (data_X tst)) ts gs) (data_X tst) (data_Y tst) mi
      bp tol 0
       (g, \<lparr>T_th = T0, iter_th = 1, gamma_sq_th = 1 / 10000 + sqrt (mean_std tst)\<rparr>,
        replicate mi 0, replicate mi (map (map (\<lambda>_. 0)) T0), replicate mi 0)"
  have c: "\<not> mean_std tst < 0" "mi \<noteq> 0"
    using assms unfolding optimize_T_gaussian_width_def Let_def by (auto split: if_splits)
  have e: "(case ?loop of Inl e \<Rightarrow> Inl e
            | Inr (t, g', S, Ts, gams) \<Rightarrow>
                if take (nat (t + 1)) Ts = [] then Inl (Raised IndexError)
                else Inr ((last (take (nat (t + 1)) Ts), last (take (nat (t + 1)) gams),
                           \<lparr>info_Ts = take (nat (t + 1)) Ts, info_T0 = T0,
                            info_gwidths = take (nat (t + 1)) gams,
                            info_obj_values = take (nat (t + 1)) S\<rparr>), g'))
           = Inr ((T, gam, info), g')"
    using assms c unfolding optimize_T_gaussian_width_def Let_def by simp
  show thesis
  proof (cases ?loop)
    case (Inl a)
    then show ?thesis using e by simp
  next
    case (Inr r)
    obtain t1 g1 S1 Ts1 gams1 where r: "r = (t1, g1, S1, Ts1, gams1)" by (cases r)
    show ?thesis
      using e that [of t1 S1 Ts1 gams1] unfolding Inr r
      by (simp split: if_splits)
  qed
qed

lemma optimize_gw_result:
  assumes "optimize_gaussian_width bits ad tst T func_z mi gs bp tol g = Inr ((gam, info), g')"
  obtains t1 S1 gams1 where
    "loop_gw bits (func_gw func_z ad (length (data_X tst)) gs) (data_X tst) (data_Y tst) mi bp tol 0
       (g, \<lparr>T_th = T, iter_th = 1, gamma_sq_th = 1 / 10000 + sqrt (mean_std tst)\<rparr>,
        replicate mi 0, replicate mi 0)
     = Inr (t1, g', S1, gams1)"
    "take t1 gams1 \<noteq> []"
    "gam = last (take t1 gams1)"
    "info = \<lparr>info_T = T, info_gw_gwidths = take t1 gams1, info_gw_obj_values = take t1 S1\<rparr>"
proof -
  let ?loop = "loop_gw bits (func_gw func_z ad (length (data_X tst)) gs) (data_X tst) (data_Y tst) mi
      bp tol 0
       (g, \<lparr>T_th = T, iter_th = 1, gamma_sq_th = 1 / 10000 + sqrt (mean_std tst)\<rparr>,
        replicate mi 0, replicate mi 0)"
  have c: "\<not> mean_std tst < 0" "mi \<noteq> 0"
    using assms unfolding optimize_gaussian_width_def Let_def by (auto split: if_splits)
  have e: "(case ?loop of Inl e \<Rightarrow> Inl e
            | Inr (t, g', S, gams) \<Rightarrow>
                if take t gams = [] then Inl (Raised IndexError)
                else Inr ((last (take t gams),
                           \<lparr>info_T = T, info_gw_gwidths = take t gams,
                            info_gw_obj_values = take t S\<rparr>), g'))
           = Inr ((gam, info), g')"
    using assms c unfolding optimize_gaussian_width_def Let_def by simp
  show thesis
  proof (cases ?loop)
    case (Inl a)
    then show ?thesis using e by simp
  next
    case (Inr r)
    obtain t1 g1 S1 gams1 where r: "r = (t1, g1, S1, gams1)" by (cases r)
    show ?thesis
      using e that [of t1 S1 gams1] unfolding Inr r
      by (simp split: if_splits)
  qed
qed

section \<open>Linearity of the elimination\<close>

lemma pick_pivot_map:
  assumes "\<And>r. lead (fst (h r)) \<noteq> 0 \<longleftrightarrow> lead (fst r) \<noteq> 0"
  shows "pick_pivot (map h rows)
           = map_option (\<lambda>(p, rest). (h p, map h rest)) (pick_pivot rows)"
  by (induction rows) (auto simp: assms split: option.splits)

lemma pick_pivot_set:
  "pick_pivot rows = Some (p, rest) \<Longrightarrow> set rows = insert p (set rest)"
  by (induction rows arbitrary: p rest) (auto split: if_splits option.splits)

lemma pick_pivot_lead:
  "pick_pivot rows = Some (p, rest) \<Longrightarrow> lead (fst p) \<noteq> 0"
  by (induction rows arbitrary: p rest) (auto split: if_splits option.splits)

lemma vscale_vscale: "vscale c (vscale d v) = vscale (c * d) v"
  by (simp add: vscale_def)

lemma vscale_vsub: "vscale c (vsub u v) = vsub (vscale c u) (vscale c v)"
  unfolding vscale_def vsub_def
  by (induction u v rule: list_induct2') (simp_all add: algebra_simps)

lemma tl_vscale: "tl (vscale c v) = vscale c (tl v)"
  by (simp add: vscale_def map_tl)

lemma lead_vscale: "lead (vscale c v) = c * lead v"
  by (cases v) (simp_all add: lead_def vscale_def)

lemma back_subst_foldl_scale:
  "foldl (\<lambda>acc (c, x). vsub acc (vscale c x)) (vscale k b) (zip a (map (vscale k) xs))
     = vscale k (foldl (\<lambda>acc (c, x). vsub acc (vscale c x)) b (zip a xs))"
proof (induction xs arbitrary: a b)
  case Nil
  then show ?case by simp
next
  case (Cons x xs)
  show ?case
  proof (cases a)
    case Nil
    then show ?thesis by simp
  next
    case (Cons c cs)
    have "vsub (vscale k b) (vscale c (vscale k x)) = vscale k (vsub b (vscale c x))"
      by (simp add: vscale_vsub vscale_vscale mult.commute)
    then show ?thesis using Cons Cons.IH [where a = cs and b = "vsub b (vscale c x)"] by simp
  qed
qed

text \<open>Scaling the coefficients of a system by c divides its solution by c.\<close>

lemma gauss_scale_coefficients:
  assumes c: "c \<noteq> 0"
  shows "gauss (map (\<lambda>r. (vscale c (fst r), snd r)) rows)
           = map_option (map (vscale (1 / c))) (gauss rows)"
proof (induction rows rule: gauss.induct)
  case (1 rows)
  let ?h = "\<lambda>r :: vec \<times> vec. (vscale c (fst r), snd r)"
  show ?case
  proof (cases "rows = []")
    case True
    then show ?thesis by (simp add: gauss.simps)
  next
    case False
    have pp: "pick_pivot (map ?h rows)
                = map_option (\<lambda>(p, rest). (?h p, map ?h rest)) (pick_pivot rows)"
      by (rule pick_pivot_map) (simp add: lead_vscale c)
    show ?thesis
    proof (cases "pick_pivot rows")
      case None
      then show ?thesis using False pp
        by (subst gauss.simps, subst (2) gauss.simps) simp
    next
      case (Some pr)
      obtain r rest where pr: "pr = (r, rest)" by (cases pr)
      let ?p = "normalise r"
      let ?p' = "normalise (?h r)"
      have lr: "lead (fst r) \<noteq> 0"
        using Some pr pick_pivot_lead by blast
      have np: "?p' = (fst ?p, vscale (1 / c) (snd ?p))"
        using c lr by (simp add: normalise_def lead_vscale tl_vscale vscale_vscale)
      have el: "eliminate ?p' (?h x) = ?h (eliminate ?p x)" for x
        using c by (simp add: np eliminate_def lead_vscale tl_vscale vscale_vsub vscale_vscale)
      have rest: "map (eliminate ?p') (map ?h rest) = map ?h (map (eliminate ?p) rest)"
        by (simp add: el)
      let ?R = "map (eliminate ?p) rest"
      have ih: "gauss (map ?h ?R) = map_option (map (vscale (1 / c))) (gauss ?R)"
        using "1.IH" [OF False Some pr [symmetric]] .
      have bs: "back_subst ?p' (map (vscale (1 / c)) xs) = vscale (1 / c) (back_subst ?p xs)" for xs
        by (simp add: back_subst_def np back_subst_foldl_scale)
      have lhs0: "gauss (map ?h rows)
                   = (case gauss (map (eliminate ?p') (map ?h rest)) of None \<Rightarrow> None
                      | Some xs \<Rightarrow> Some (back_subst ?p' xs # xs))"
        using False Some pr pp by (subst gauss.simps) (simp del: map_map)
      have lhs: "gauss (map ?h rows)
                   = (case gauss (map ?h ?R) of None \<Rightarrow> None
                      | Some xs \<Rightarrow> Some (back_subst ?p' xs # xs))"
        using lhs0 unfolding rest .
      have rhs: "gauss rows
                   = (case gauss ?R of None \<Rightarrow> None
                      | Some xs \<Rightarrow> Some (back_subst ?p xs # xs))"
        using False Some pr by (subst gauss.simps) simp
      show ?thesis
        unfolding lhs rhs ih by (cases "gauss ?R") (simp_all add: bs)
    qed
  qed
qed

lemma back_subst_foldl_map:
  assumes sc: "\<And>c b. P b \<Longrightarrow> f (vscale c b) = vscale c (f b) \<and> P (vscale c b)"
    and sb: "\<And>b b'. P b \<Longrightarrow> P b' \<Longrightarrow> f (vsub b b') = vsub (f b) (f b') \<and> P (vsub b b')"
    and "P b" and "\<forall>x \<in> set xs. P x"
  shows "foldl (\<lambda>acc (c, x). vsub acc (vscale c x)) (f b) (zip a (map f xs))
           = f (foldl (\<lambda>acc (c, x). vsub acc (vscale c x)) b (zip a xs))
         \<and> P (foldl (\<lambda>acc (c, x). vsub acc (vscale c x)) b (zip a xs))"
  using assms(3,4)
proof (induction xs arbitrary: a b)
  case Nil
  then show ?case by simp
next
  case (Cons x xs)
  show ?case
  proof (cases a)
    case Nil
    then show ?thesis using Cons.prems by simp
  next
    case (Cons c cs)
    have px: "P x" and pxs: "\<forall>y \<in> set xs. P y" using Cons.prems by simp_all
    have 1: "f (vscale c x) = vscale c (f x)" "P (vscale c x)" using sc [OF px] by simp_all
    have 2: "f (vsub b (vscale c x)) = vsub (f b) (vscale c (f x))" "P (vsub b (vscale c x))"
      using sb [OF Cons.prems(1) 1(2)] 1(1) by simp_all
    show ?thesis
      using Cons Cons.IH [where a = cs and b = "vsub b (vscale c x)", OF 2(2) pxs] 2(1)
      by simp
  qed
qed

text \<open>A linear map of the right-hand sides goes through the elimination.\<close>

lemma gauss_map_rhs:
  assumes sc: "\<And>c b. P b \<Longrightarrow> f (vscale c b) = vscale c (f b) \<and> P (vscale c b)"
    and sb: "\<And>b b'. P b \<Longrightarrow> P b' \<Longrightarrow> f (vsub b b') = vsub (f b) (f b') \<and> P (vsub b b')"
    and "\<forall>r \<in> set rows. P (snd r)"
  shows "gauss (map (\<lambda>r. (fst r, f (snd r))) rows) = map_option (map f) (gauss rows)
         \<and> (\<forall>X. gauss rows = Some X \<longrightarrow> (\<forall>x \<in> set X. P x))"
  using assms(3)
proof (induction rows rule: gauss.induct)
  case (1 rows)
  let ?h = "\<lambda>r :: vec \<times> vec. (fst r, f (snd r))"
  show ?case
  proof (cases "rows = []")
    case True
    then show ?thesis by (simp add: gauss.simps)
  next
    case False
    have pp: "pick_pivot (map ?h rows)
                = map_option (\<lambda>(p, rest). (?h p, map ?h rest)) (pick_pivot rows)"
      by (rule pick_pivot_map) simp
    show ?thesis
    proof (cases "pick_pivot rows")
      case None
      have "gauss (map ?h rows) = None" using False None pp by (subst gauss.simps) simp
      moreover have "gauss rows = None" using False None by (subst gauss.simps) simp
      ultimately show ?thesis by simp
    next
      case (Some pr)
      obtain r rest where pr: "pr = (r, rest)" by (cases pr)
      let ?p = "normalise r"
      let ?p' = "normalise (?h r)"
      let ?R = "map (eliminate ?p) rest"
      have mem: "set rows = insert r (set rest)" using Some pr pick_pivot_set by blast
      have Pr: "P (snd r)" and Prest: "\<forall>x \<in> set rest. P (snd x)"
        using "1.prems" mem by auto
      have np: "?p' = ?h ?p" and Pp: "P (snd ?p)"
        using sc [OF Pr] by (simp_all add: normalise_def)
      have el: "eliminate ?p' (?h x) = ?h (eliminate ?p x) \<and> P (snd (eliminate ?p x))"
        if "x \<in> set rest" for x
      proof -
        have Px: "P (snd x)" using Prest that by simp
        have a: "f (vscale (lead (fst x)) (snd ?p)) = vscale (lead (fst x)) (f (snd ?p))"
          and b: "P (vscale (lead (fst x)) (snd ?p))"
          using sc [OF Pp] by simp_all
        show ?thesis using sb [OF Px b] a by (simp add: np eliminate_def)
      qed
      have rest: "map (eliminate ?p') (map ?h rest) = map ?h ?R"
        using el by simp
      have PR: "\<forall>x \<in> set ?R. P (snd x)" using el by simp
      have ih: "gauss (map ?h ?R) = map_option (map f) (gauss ?R)
                \<and> (\<forall>X. gauss ?R = Some X \<longrightarrow> (\<forall>x \<in> set X. P x))"
        using "1.IH" [OF False Some pr [symmetric] PR] .
      have bs: "back_subst ?p' (map f xs) = f (back_subst ?p xs) \<and> P (back_subst ?p xs)"
        if "\<forall>x \<in> set xs. P x" for xs
        using back_subst_foldl_map [where P = P and f = f, OF sc sb Pp that]
        by (simp add: back_subst_def np)
      have lhs0: "gauss (map ?h rows)
                   = (case gauss (map (eliminate ?p') (map ?h rest)) of None \<Rightarrow> None
                      | Some xs \<Rightarrow> Some (back_subst ?p' xs # xs))"
        using False Some pr pp by (subst gauss.simps) (simp del: map_map)
      have lhs: "gauss (map ?h rows)
                   = (case map_option (map f) (gauss ?R) of None \<Rightarrow> None
                      | Some xs \<Rightarrow> Some (back_subst ?p' xs # xs))"
        using lhs0 ih unfolding rest by simp
      have rhs: "gauss rows
                   = (case gauss ?R of None \<Rightarrow> None
                      | Some xs \<Rightarrow> Some (back_subst ?p xs # xs))"
        using False Some pr by (subst gauss.simps) simp
      show ?thesis
      proof (cases "gauss ?R")
        case None
        then show ?thesis unfolding lhs rhs by simp
      next
        case (Some xs)
        have Pxs: "\<forall>x \<in> set xs. P x" using ih Some by simp
        show ?thesis unfolding lhs rhs Some using bs [OF Pxs] Pxs by simp
      qed
    qed
  qed
qed

section \<open>Columns, inner products and the two covariances\<close>

lemma transpose_columns:
  assumes "\<forall>r \<in> set Z. length r = m" and "Z \<noteq> []"
  shows "transpose Z = map (\<lambda>i. map (\<lambda>r. r ! i) Z) [0..<m]"
proof -
  have r: "\<And>i. i < length Z \<Longrightarrow> length (Z ! i) = m" using assms(1) by simp
  have "transpose Z = map (\<lambda>i. map (\<lambda>j. Z ! j ! i) [0..<length Z]) [0..<m]"
    by (rule transpose_rectangle) (use assms r in auto)
  moreover have "map (\<lambda>j. Z ! j ! i) [0..<length Z] = map (\<lambda>r. r ! i) Z" for i
    by (simp add: map_nth [symmetric] comp_def map_equality_iff)
  ultimately show ?thesis by simp
qed

lemma dot_sum: "dot x y = (\<Sum>j<min (length x) (length y). x ! j * y ! j)"
proof -
  have "dot x y = sum_list (map (\<lambda>j. x ! j * y ! j) [0..<min (length x) (length y)])"
    unfolding dot_def by (intro arg_cong [where f = sum_list] nth_equalityI) simp_all
  then show ?thesis by (simp add: sum_list_sum_nth atLeast0LessThan)
qed

lemma dot_unit_vec:
  assumes "i < m" and "length W = m"
  shows "dot (unit_vec m i) W = W ! i"
proof -
  have "dot (unit_vec m i) W = (\<Sum>j<m. (if j = i then 1 else 0) * W ! j)"
    using assms by (simp add: dot_sum unit_vec_def)
  also have "\<dots> = (\<Sum>j<m. if j = i then W ! j else 0)"
    by (intro sum.cong) simp_all
  also have "\<dots> = W ! i" using assms by simp
  finally show ?thesis .
qed

lemma dot_vscale: "dot (vscale c b) W = c * dot b W"
  unfolding dot_def vscale_def
  by (induction b W rule: list_induct2') (simp_all add: algebra_simps)

lemma dot_vsub:
  "length b = length b' \<Longrightarrow> dot (vsub b b') W = dot b W - dot b' W"
  unfolding dot_def vsub_def
proof (induction b b' arbitrary: W rule: list_induct2)
  case Nil
  then show ?case by simp
next
  case (Cons x xs y ys)
  then show ?case by (cases W) (simp_all add: algebra_simps)
qed

section \<open>Inverse of a scaled matrix against the linear solve\<close>

lemma square_scaled: "square (map (vscale k) C) = square C"
  by (simp add: square_def vscale_def list_all_iff)

lemma unit_column:
  assumes "length W = m"
  shows "map (\<lambda>x. [x]) W = map (\<lambda>e. [dot e W]) (map (unit_vec m) [0..<m])"
  using assms by (intro nth_equalityI) (simp_all add: dot_unit_vec)

lemma gauss_inverse_scaled:
  assumes k: "k \<noteq> 0"
  shows "gauss (zip (map (vscale k) C) B) = map_option (map (vscale (1 / k))) (gauss (zip C B))"
proof -
  have z1: "zip (map (vscale k) C) B = map (\<lambda>r. (vscale k (fst r), snd r)) (zip C B)"
    by (simp add: zip_map1 case_prod_unfold)
  show ?thesis unfolding z1 by (rule gauss_scale_coefficients [OF k])
qed

lemma gauss_solve_column:
  assumes lw: "length W = length C"
  shows "gauss (zip C (map (\<lambda>x. [x]) W))
           = map_option (map (\<lambda>e. [dot e W])) (gauss (zip C (map (unit_vec (length C)) [0..<length C])))"
proof -
  let ?m = "length C"
  let ?I = "map (unit_vec ?m) [0..<?m]"
  let ?f = "\<lambda>e. [dot e W]"
  have z2: "zip C (map ?f ?I) = map (\<lambda>r. (fst r, ?f (snd r))) (zip C ?I)"
    by (simp only: zip_map2 case_prod_unfold fst_conv snd_conv)
  have P: "\<forall>r \<in> set (zip C ?I). length (snd r) = ?m"
  proof
    fix r assume "r \<in> set (zip C ?I)"
    then have "snd r \<in> set ?I" by (metis prod.collapse set_zip_rightD)
    then show "length (snd r) = ?m" by (auto simp: unit_vec_def)
  qed
  have sc: "?f (vscale c b) = vscale c (?f b) \<and> length (vscale c b) = ?m"
    if "length b = ?m" for c b
  proof -
    have "?f (vscale c b) = [c * dot b W]" by (simp add: dot_vscale)
    moreover have "vscale c (?f b) = [c * dot b W]" by (simp add: vscale_def)
    moreover have "length (vscale c b) = ?m" using that by (simp add: vscale_def)
    ultimately show ?thesis by simp
  qed
  have sb: "?f (vsub b b') = vsub (?f b) (?f b') \<and> length (vsub b b') = ?m"
    if "length b = ?m" "length b' = ?m" for b b'
  proof -
    have "?f (vsub b b') = [dot b W - dot b' W]" using that by (simp add: dot_vsub)
    moreover have "vsub (?f b) (?f b') = [dot b W - dot b' W]" by (simp add: vsub_def)
    moreover have "length (vsub b b') = ?m" using that by (simp add: vsub_def)
    ultimately show ?thesis by simp
  qed
  have "gauss (map (\<lambda>r. (fst r, ?f (snd r))) (zip C ?I)) = map_option (map ?f) (gauss (zip C ?I))"
    using gauss_map_rhs [where P = "\<lambda>b. length b = ?m" and f = ?f and rows = "zip C ?I",
        OF sc sb P]
    by (rule conjunct1)
  then show ?thesis
    unfolding unit_column [OF lw] z2 .
qed

lemma matrix_inverse_scaled:
  assumes k: "k \<noteq> 0"
  shows "matrix_inverse (map (vscale k) C) =
           (if \<not> square C then Inl (Raised LinAlgError)
            else case gauss (zip C (map (unit_vec (length C)) [0..<length C])) of
                   None \<Rightarrow> Inl (Raised LinAlgError)
                 | Some M \<Rightarrow> Inr (map (vscale (1 / k)) M))"
proof (cases "gauss (zip C (map (unit_vec (length C)) [0..<length C]))")
  case None
  then show ?thesis
    unfolding matrix_inverse_def gesv_def square_scaled length_map gauss_inverse_scaled [OF k]
    by simp
next
  case (Some M)
  then show ?thesis
    unfolding matrix_inverse_def gesv_def square_scaled length_map gauss_inverse_scaled [OF k]
    by simp
qed

lemma concat_singletons: "concat (map (\<lambda>e. [f e]) M) = map f M"
  by (induction M) simp_all

lemma solve_by_columns:
  assumes lw: "length W = length C"
  shows "np_linalg_solve (Array2 C) W =
           (if \<not> square C then Inl (Raised LinAlgError)
            else case gauss (zip C (map (unit_vec (length C)) [0..<length C])) of
                   None \<Rightarrow> Inl (Raised LinAlgError)
                 | Some M \<Rightarrow> Inr (map (\<lambda>r. dot r W) M))"
proof (cases "gauss (zip C (map (unit_vec (length C)) [0..<length C]))")
  case None
  show ?thesis
    by (simp add: np_linalg_solve_def gesv_def gauss_solve_column [OF lw] lw None)
next
  case (Some M)
  show ?thesis
    by (simp add: np_linalg_solve_def gesv_def gauss_solve_column [OF lw] lw Some
        concat_singletons)
qed

lemma map_dot_vscale: "map (\<lambda>r. dot r W) (map (vscale c) M) = vscale c (map (\<lambda>r. dot r W) M)"
proof -
  have "map (\<lambda>r. dot r W) (map (vscale c) M) = map ((*) c) (map (\<lambda>r. dot r W) M)"
    by (simp add: dot_vscale comp_def)
  then show ?thesis by (simp only: vscale_def)
qed

lemma inverse_scaled_vs_solve:
  assumes lw: "length W = length C" and k: "k \<noteq> 0"
  shows "(case matrix_inverse (map (vscale k) C) of
            Inl e \<Rightarrow> Inl e
          | Inr M \<Rightarrow> Inr (map (\<lambda>r. dot r W) M))
         = (case np_linalg_solve (Array2 C) W of
              Inl e \<Rightarrow> Inl e
            | Inr x \<Rightarrow> Inr (vscale (1 / k) x))"
proof (cases "gauss (zip C (map (unit_vec (length C)) [0..<length C]))")
  case None
  then show ?thesis
    unfolding matrix_inverse_scaled [OF k] solve_by_columns [OF lw] by simp
next
  case (Some M)
  then show ?thesis
    unfolding matrix_inverse_scaled [OF k] solve_by_columns [OF lw]
    by (simp add: map_dot_vscale del: map_map)
qed


section \<open>The covariance of the evaluator against the covariance of the optimizers\<close>

lemma centred_columns:
  assumes rect: "\<forall>r \<in> set Z. length r = m" and ne: "Z \<noteq> []"
  shows "transpose (map (\<lambda>r. vsub r (map (\<lambda>c. sum_list c / n) (transpose Z))) Z)
           = map (\<lambda>c. map (\<lambda>a. a - sum_list c / n) c) (transpose Z)"
proof -
  let ?col = "\<lambda>i. map (\<lambda>r. r ! i) Z"
  let ?W = "map (\<lambda>c. sum_list c / n) (transpose Z)"
  let ?Z0 = "map (\<lambda>r. vsub r ?W) Z"
  have tc: "transpose Z = map ?col [0..<m]"
    by (rule transpose_columns [OF rect ne])
  have lW: "length ?W = m" by (simp add: tc)
  have W: "?W ! i = sum_list (?col i) / n" if "i < m" for i
    using that by (simp add: tc)
  have rect0: "\<forall>r \<in> set ?Z0. length r = m"
    using rect lW by (auto simp: vsub_def)
  have ne0: "?Z0 \<noteq> []" using ne by simp
  have "transpose ?Z0 = map (\<lambda>i. map (\<lambda>r. r ! i) ?Z0) [0..<m]"
    by (rule transpose_columns [OF rect0 ne0])
  also have "\<dots> = map (\<lambda>i. map (\<lambda>a. a - sum_list (?col i) / n) (?col i)) [0..<m]"
  proof (rule map_cong [OF refl])
    fix i assume "i \<in> set [0..<m]"
    then have i: "i < m" by simp
    have "vsub r ?W ! i = r ! i - sum_list (?col i) / n" if "r \<in> set Z" for r
    proof -
      have "length r = m" using rect that by simp
      then have "vsub r ?W ! i = r ! i - ?W ! i"
        using i lW unfolding vsub_def by simp
      then show ?thesis by (simp only: W [OF i])
    qed
    then show "map (\<lambda>r. r ! i) ?Z0 = map (\<lambda>a. a - sum_list (?col i) / n) (?col i)"
      by (simp add: comp_def)
  qed
  also have "\<dots> = map (\<lambda>c. map (\<lambda>a. a - sum_list c / n) c) (transpose Z)"
    unfolding tc by (simp add: comp_def)
  finally show ?thesis .
qed

lemma covariance_scaled:
  assumes n: "(n :: real) \<noteq> 0" "n \<noteq> 1"
  shows "map (\<lambda>ci. map (\<lambda>cj. dot ci cj / n) cen) cen
           = map (vscale ((n - 1) / n)) (map (\<lambda>ci. map (\<lambda>cj. dot ci cj * (1 / (n - 1))) cen) cen)"
  using n by (simp add: vscale_def comp_def)

lemma not_one_by_one:
  "length c \<noteq> 1 \<Longrightarrow> (case c of [[v]] \<Rightarrow> Inr (Array0 v) | _ \<Rightarrow> Inr (Array2 c)) = Inr (Array2 c)"
  by (auto split: list.splits)

lemma objective_vs_quad_stat:
  assumes rect: "\<forall>r \<in> set Z. length r = m" and two: "2 \<le> length Z" and m: "m \<noteq> 1"
  shows "th_objective (\<lambda>X Y T w. Inr Z) (length Z) Xb Yb T q
           = (case quad_stat (length Z) Z of
                Inl e \<Rightarrow> Inl e
              | Inr s \<Rightarrow> Inr (real (length Z) / (real (length Z) - 1) * s))"
proof -
  let ?n = "real (length Z)"
  let ?W = "map (\<lambda>c. sum_list c / ?n) (transpose Z)"
  let ?cen = "map (\<lambda>c. map (\<lambda>a. a - sum_list c / ?n) c) (transpose Z)"
  let ?C = "map (\<lambda>ci. map (\<lambda>cj. dot ci cj * (1 / (?n - 1))) ?cen) ?cen"
  let ?k = "(?n - 1) / ?n"
  have ne: "Z \<noteq> []" using two by auto
  have n: "?n \<noteq> 0" "?n \<noteq> 1" using two by auto
  have k: "?k \<noteq> 0" using n by simp
  have tc: "transpose Z = map (\<lambda>i. map (\<lambda>r. r ! i) Z) [0..<m]"
    by (rule transpose_columns [OF rect ne])
  have lC: "length ?C = m" by (simp add: tc)
  have lW: "length ?W = length ?C" by (simp add: tc)
  have cov: "np_cov_T Z = Inr (Array2 ?C)"
    unfolding np_cov_T_def Let_def using two not_one_by_one [of ?C] lC m by simp
  have mean: "np_mean0 Z = Inr ?W"
    unfolding np_mean0_def using ne by simp
  have stat: "quad_stat (length Z) Z
                = (case np_linalg_solve (Array2 ?C) ?W of
                     Inl e \<Rightarrow> Inl e
                   | Inr x \<Rightarrow> Inr (?n * dot x ?W))"
    unfolding quad_stat_def cov mean by simp
  have cc: "transpose (map (\<lambda>r. vsub r ?W) Z) = ?cen"
    by (rule centred_columns [OF rect ne])
  have obj: "th_objective (\<lambda>X Y T w. Inr Z) (length Z) Xb Yb T q
               = (case matrix_inverse (map (vscale ?k) ?C) of
                    Inl e \<Rightarrow> Inl e
                  | Inr M \<Rightarrow> Inr (dot (map (\<lambda>r. dot r ?W) M) ?W * ?n))"
    unfolding th_objective_def sum.case Let_def
    unfolding cc
    unfolding covariance_scaled [OF n]
    using ne by (simp del: map_map)
  note eq = inverse_scaled_vs_solve [OF lW k]
  show ?thesis
  proof (cases "np_linalg_solve (Array2 ?C) ?W")
    case (Inl e)
    with eq have "matrix_inverse (map (vscale ?k) ?C) = Inl e"
      by (cases "matrix_inverse (map (vscale ?k) ?C)") simp_all
    then show ?thesis unfolding obj stat Inl by simp
  next
    case (Inr x)
    with eq obtain M where M: "matrix_inverse (map (vscale ?k) ?C) = Inr M"
      and x: "map (\<lambda>r. dot r ?W) M = vscale (1 / ?k) x"
      by (cases "matrix_inverse (map (vscale ?k) ?C)") simp_all
    have "dot (vscale (1 / ?k) x) ?W * ?n = ?n / (?n - 1) * (?n * dot x ?W)"
      unfolding dot_vscale using n by simp
    then show ?thesis unfolding obj stat Inr M by (simp add: x)
  qed
qed


section \<open>The calls made by the loops\<close>

lemma step_call:
  assumes "np_random_choice bits g (length X) (batch_size bp (length X)) = Inr (ind, g1)"
    and "draw_batch func X Y ind st = Inr (s, st1)"
  obtains c where "one_call bits func X Y bp (g, st) = Inr (c, g1)"
    "st_before c = st" "st_after c = st1" "call_s c = s"
    "func st (call_X c) (call_Y c) = Inr (s, st1)"
proof -
  from assms(2) obtain Xb Yb where
    r: "take_rows X ind = Inr Xb" "take_rows Y ind = Inr Yb" "func st Xb Yb = Inr (s, st1)"
    by (auto simp: draw_batch_def split: sum.splits)
  show thesis
    by (rule that [of "\<lparr>call_X = Xb, call_Y = Yb, st_before = st, call_s = s, st_after = st1\<rparr>"])
      (simp_all add: one_call_def assms(1) r)
qed


lemma calls_length: "calls bits func X Y bp k gs = Inr cs \<Longrightarrow> length cs = k"
  by (induction k arbitrary: gs cs) (auto split: sum.splits prod.splits)

lemma calls_take:
  "calls bits func X Y bp (k + m) gs = Inr cs \<Longrightarrow> calls bits func X Y bp k gs = Inr (take k cs)"
  by (induction k arbitrary: gs cs) (auto split: sum.splits prod.splits)


lemma calls_one:
  assumes "one_call bits func X Y bp gs = Inr (c, g1)"
  shows "calls bits func X Y bp (Suc 0) gs = Inr [c]"
  using assms by simp

lemma calls_Suc:
  assumes "one_call bits func X Y bp gs = Inr (c, g1)"
    and "calls bits func X Y bp k (g1, st_after c) = Inr cs"
  shows "calls bits func X Y bp (Suc k) gs = Inr (c # cs)"
  using assms by simp

text \<open>
  A run of the loop of \<^verbatim>\<open>optimize_gaussian_width\<close> from index t that ends at index t'
  has made the calls of \<open>calls\<close>, t' - t + 1 of them, and has stored the output of
  each and the square of the width variable it left at the index of its iteration.
\<close>

lemma loop_gw_calls:
  assumes "loop_gw bits func X Y mi bp tol t (g, st, S, gams) = Inr (t', g', S', gams')"
    and "t < mi" and "mi \<le> length gams" and "mi \<le> length S"
  shows "t \<le> t' \<and> t' < mi
         \<and> (\<exists>cs. calls bits func X Y bp (Suc t' - t) (g, st) = Inr cs
               \<and> (\<forall>i \<le> t' - t. gams' ! (t + i) = (gamma_sq_th (st_after (cs ! i)))\<^sup>2
                                \<and> S' ! (t + i) = call_s (cs ! i)))
         \<and> (\<forall>i<t. gams' ! i = gams ! i \<and> S' ! i = S ! i)
         \<and> length gams' = length gams \<and> length S' = length S"
  using assms
proof (induction "mi - t" arbitrary: t g st S gams)
  case 0
  then show ?case by simp
next
  case (Suc n)
  from Suc.prems(1) show ?case
  proof (cases rule: loop_gw_cases)
    case (stop ind g1 s st1)
    from step_call [OF stop(1) stop(2)] obtain c where
      c: "one_call bits func X Y bp (g, st) = Inr (c, g1)" "st_after c = st1" "call_s c = s"
      by metis
    have "calls bits func X Y bp (Suc t' - t) (g, st) = Inr [c]"
      using calls_one [OF c(1)] stop(4) by simp
    moreover have "gams' ! t = (gamma_sq_th (st_after c))\<^sup>2" "S' ! t = call_s c"
      using stop(4) c Suc.prems by simp_all
    ultimately show ?thesis using stop(4) Suc.prems by (auto simp: nth_list_update)
  next
    case (continue ind g1 s st1)
    from step_call [OF continue(1) continue(2)] obtain c where
      c: "one_call bits func X Y bp (g, st) = Inr (c, g1)" "st_after c = st1" "call_s c = s"
      by metis
    have n: "n = mi - Suc t" using Suc.hyps(2) by simp
    have l: "mi \<le> length (gams[t := (gamma_sq_th st1)\<^sup>2])" "mi \<le> length (S[t := s])"
      using Suc.prems by simp_all
    note ih = Suc.hyps(1) [OF n continue(5) continue(4) l]
    from ih obtain cs1 where
      cs1: "calls bits func X Y bp (Suc t' - Suc t) (g1, st1) = Inr cs1"
      and e1: "\<forall>i \<le> t' - Suc t. gams' ! (Suc t + i) = (gamma_sq_th (st_after (cs1 ! i)))\<^sup>2
                                \<and> S' ! (Suc t + i) = call_s (cs1 ! i)"
      by blast
    have le: "Suc t \<le> t'" using ih by simp
    have k: "Suc t' - t = Suc (Suc t' - Suc t)" using le by simp
    have cs: "calls bits func X Y bp (Suc t' - t) (g, st) = Inr (c # cs1)"
      unfolding k using calls_Suc [OF c(1)] cs1 c(2) by simp
    have fr: "\<forall>i<Suc t. gams' ! i = gams[t := (gamma_sq_th st1)\<^sup>2] ! i \<and> S' ! i = S[t := s] ! i"
      using ih by simp
    have tl: "t < length gams" "t < length S" using Suc.prems by simp_all
    have e: "gams' ! (t + i) = (gamma_sq_th (st_after ((c # cs1) ! i)))\<^sup>2
             \<and> S' ! (t + i) = call_s ((c # cs1) ! i)" if "i \<le> t' - t" for i
    proof (cases i)
      case 0
      then show ?thesis using fr tl c by simp
    next
      case (Suc j)
      then have "j \<le> t' - Suc t" using that by simp
      then show ?thesis using e1 Suc by simp
    qed
    have old: "\<forall>i<t. gams' ! i = gams ! i \<and> S' ! i = S ! i"
      using fr by (simp add: nth_list_update)
    show ?thesis using ih cs e old le by auto
  qed
qed

text \<open>
  The same for the loop of \<^verbatim>\<open>optimize_T_gaussian_width\<close>, whose handler steps the
  index back: the calls that returned are those of the indices t to t', none when
  t' = t - 1.
\<close>

lemma loop_T_calls:
  assumes "loop_T bits func X Y mi bp tol t (g, st, S, Ts, gams) = Inr (t', g', S', Ts', gams')"
    and "t < mi" and "mi \<le> length gams" and "mi \<le> length S" and "mi \<le> length Ts"
  shows "int t - 1 \<le> t' \<and> t' < int mi
         \<and> (\<exists>cs. calls bits func X Y bp (nat (t' + 1) - t) (g, st) = Inr cs
               \<and> (\<forall>i < nat (t' + 1) - t.
                      gams' ! (t + i) = (gamma_sq_th (st_after (cs ! i)))\<^sup>2
                      \<and> Ts' ! (t + i) = T_th (st_after (cs ! i))
                      \<and> S' ! (t + i) = call_s (cs ! i)))
         \<and> (\<forall>i<t. gams' ! i = gams ! i \<and> Ts' ! i = Ts ! i \<and> S' ! i = S ! i)
         \<and> length gams' = length gams \<and> length S' = length S \<and> length Ts' = length Ts"
  using assms
proof (induction "mi - t" arbitrary: t g st S Ts gams)
  case 0
  then show ?case by simp
next
  case (Suc n)
  from Suc.prems(1) show ?case
  proof (cases rule: loop_T_cases)
    case (handler ind g1 e)
    then show ?thesis using Suc.prems by simp
  next
    case (stop ind g1 s st1)
    from step_call [OF stop(1) stop(2)] obtain c where
      c: "one_call bits func X Y bp (g, st) = Inr (c, g1)" "st_after c = st1" "call_s c = s"
      by metis
    have k: "nat (t' + 1) - t = Suc 0" using stop(4) by simp
    have "calls bits func X Y bp (nat (t' + 1) - t) (g, st) = Inr [c]"
      unfolding k by (rule calls_one [OF c(1)])
    moreover have "gams' ! t = (gamma_sq_th (st_after c))\<^sup>2" "S' ! t = call_s c"
      "Ts' ! t = T_th (st_after c)"
      using stop(4) c Suc.prems by simp_all
    ultimately show ?thesis using stop(4) Suc.prems k by (auto simp: nth_list_update)
  next
    case (continue ind g1 s st1)
    from step_call [OF continue(1) continue(2)] obtain c where
      c: "one_call bits func X Y bp (g, st) = Inr (c, g1)" "st_after c = st1" "call_s c = s"
      by metis
    have n: "n = mi - Suc t" using Suc.hyps(2) by simp
    have l: "mi \<le> length (gams[t := (gamma_sq_th st1)\<^sup>2])" "mi \<le> length (S[t := s])"
      "mi \<le> length (Ts[t := T_th st1])"
      using Suc.prems by simp_all
    note ih = Suc.hyps(1) [OF n continue(5) continue(4) l]
    from ih obtain cs1 where
      cs1: "calls bits func X Y bp (nat (t' + 1) - Suc t) (g1, st1) = Inr cs1"
      and e1: "\<forall>i < nat (t' + 1) - Suc t.
                 gams' ! (Suc t + i) = (gamma_sq_th (st_after (cs1 ! i)))\<^sup>2
                 \<and> Ts' ! (Suc t + i) = T_th (st_after (cs1 ! i))
                 \<and> S' ! (Suc t + i) = call_s (cs1 ! i)"
      by blast
    have le: "int t \<le> t'" using ih by simp
    have k: "nat (t' + 1) - t = Suc (nat (t' + 1) - Suc t)" using le by linarith
    have cs: "calls bits func X Y bp (nat (t' + 1) - t) (g, st) = Inr (c # cs1)"
      unfolding k using calls_Suc [OF c(1)] cs1 c(2) by simp
    have fr: "\<forall>i<Suc t. gams' ! i = gams[t := (gamma_sq_th st1)\<^sup>2] ! i
                \<and> Ts' ! i = Ts[t := T_th st1] ! i \<and> S' ! i = S[t := s] ! i"
      using ih by simp
    have tl: "t < length gams" "t < length S" "t < length Ts" using Suc.prems by simp_all
    have e: "gams' ! (t + i) = (gamma_sq_th (st_after ((c # cs1) ! i)))\<^sup>2
             \<and> Ts' ! (t + i) = T_th (st_after ((c # cs1) ! i))
             \<and> S' ! (t + i) = call_s ((c # cs1) ! i)" if "i < nat (t' + 1) - t" for i
    proof (cases i)
      case 0
      then show ?thesis using fr tl c by simp
    next
      case (Suc j)
      then have "j < nat (t' + 1) - Suc t" using that by simp
      then show ?thesis using e1 Suc by simp
    qed
    have old: "\<forall>i<t. gams' ! i = gams ! i \<and> Ts' ! i = Ts ! i \<and> S' ! i = S ! i"
      using fr by (simp add: nth_list_update)
    show ?thesis using ih cs e old le by auto
  qed
qed

lemma optimize_gw_calls:
  assumes "optimize_gaussian_width bits ad tst T func_z mi gs bp tol g = Inr ((gam, info), g')"
  obtains cs where
    "calls bits (func_gw func_z ad (length (data_X tst)) gs) (data_X tst) (data_Y tst) bp
       (length (info_gw_gwidths info))
       (g, \<lparr>T_th = T, iter_th = 1, gamma_sq_th = 1 / 10000 + sqrt (mean_std tst)\<rparr>) = Inr cs"
    "info_gw_gwidths info = map (\<lambda>c. (gamma_sq_th (st_after c))\<^sup>2) cs"
    "info_gw_obj_values info = map call_s cs"
    "info_gw_gwidths info \<noteq> []"
    "gam = last (info_gw_gwidths info)"
proof -
  let ?f = "func_gw func_z ad (length (data_X tst)) gs"
  let ?st = "\<lparr>T_th = T, iter_th = 1, gamma_sq_th = 1 / 10000 + sqrt (mean_std tst)\<rparr>"
  from assms obtain t1 S1 gams1 where
    L: "loop_gw bits ?f (data_X tst) (data_Y tst) mi bp tol 0
          (g, ?st, replicate mi 0, replicate mi 0) = Inr (t1, g', S1, gams1)"
    and ne: "take t1 gams1 \<noteq> []"
    and gm: "gam = last (take t1 gams1)"
    and inf: "info = \<lparr>info_T = T, info_gw_gwidths = take t1 gams1, info_gw_obj_values = take t1 S1\<rparr>"
    by (rule optimize_gw_result)
  have mi: "0 < mi" using ne loop_gw_inv [OF L] by (cases mi) auto
  have l: "mi \<le> length (replicate mi (0::real))" by simp
  from loop_gw_calls [OF L mi l l] obtain cs where
    t1: "t1 < mi"
    and cs: "calls bits ?f (data_X tst) (data_Y tst) bp (Suc t1 - 0) (g, ?st) = Inr cs"
    and e: "\<forall>i \<le> t1 - 0. gams1 ! (0 + i) = (gamma_sq_th (st_after (cs ! i)))\<^sup>2
                           \<and> S1 ! (0 + i) = call_s (cs ! i)"
    and len: "length gams1 = length (replicate mi (0::real))"
             "length S1 = length (replicate mi (0::real))"
    by blast
  have cs': "calls bits ?f (data_X tst) (data_Y tst) bp (t1 + 1) (g, ?st) = Inr cs"
    using cs by simp
  note ct = calls_take [OF cs']
  have lcs: "length cs = Suc t1" using calls_length [OF cs'] by simp
  have lg: "length (take t1 gams1) = t1" "length (take t1 S1) = t1" using len t1 by simp_all
  have g: "take t1 gams1 = map (\<lambda>c. (gamma_sq_th (st_after c))\<^sup>2) (take t1 cs)"
    by (rule nth_equalityI) (use lg lcs e in auto)
  have s: "take t1 S1 = map call_s (take t1 cs)"
    by (rule nth_equalityI) (use lg lcs e in auto)
  show thesis
    by (rule that [of "take t1 cs"]) (use inf lg ct g s ne gm in simp_all)
qed

lemma optimize_T_calls:
  assumes "optimize_T_gaussian_width bits ad tst T0 func_z mi ts gs bp tol g = Inr ((T, gam, info), g')"
  obtains cs where
    "calls bits (func_T func_z ad (length (data_X tst)) ts gs) (data_X tst) (data_Y tst) bp
       (length (info_Ts info))
       (g, \<lparr>T_th = T0, iter_th = 1, gamma_sq_th = 1 / 10000 + sqrt (mean_std tst)\<rparr>) = Inr cs"
    "info_gwidths info = map (\<lambda>c. (gamma_sq_th (st_after c))\<^sup>2) cs"
    "info_Ts info = map (\<lambda>c. T_th (st_after c)) cs"
    "info_obj_values info = map call_s cs"
    "info_Ts info \<noteq> []"
    "gam = last (info_gwidths info)"
    "T = last (info_Ts info)"
proof -
  let ?f = "func_T func_z ad (length (data_X tst)) ts gs"
  let ?st = "\<lparr>T_th = T0, iter_th = 1, gamma_sq_th = 1 / 10000 + sqrt (mean_std tst)\<rparr>"
  from assms obtain t1 S1 Ts1 gams1 where
    L: "loop_T bits ?f (data_X tst) (data_Y tst) mi bp tol 0
          (g, ?st, replicate mi 0, replicate mi (map (map (\<lambda>_. 0)) T0), replicate mi 0)
        = Inr (t1, g', S1, Ts1, gams1)"
    and ne: "take (nat (t1 + 1)) Ts1 \<noteq> []"
    and Tm: "T = last (take (nat (t1 + 1)) Ts1)"
    and gm: "gam = last (take (nat (t1 + 1)) gams1)"
    and inf: "info = \<lparr>info_Ts = take (nat (t1 + 1)) Ts1, info_T0 = T0,
             info_gwidths = take (nat (t1 + 1)) gams1, info_obj_values = take (nat (t1 + 1)) S1\<rparr>"
    by (rule optimize_T_result)
  let ?n = "nat (t1 + 1)"
  have mi: "0 < mi" using ne loop_T_inv [OF L] by (cases mi) auto
  have l: "mi \<le> length (replicate mi (0::real))"
    "mi \<le> length (replicate mi (map (map (\<lambda>_. 0::real)) T0))" by simp_all
  from loop_T_calls [OF L mi l(1) l(1) l(2)] obtain cs where
    t1: "t1 < int mi"
    and cs: "calls bits ?f (data_X tst) (data_Y tst) bp (?n - 0) (g, ?st) = Inr cs"
    and e: "\<forall>i < ?n - 0. gams1 ! (0 + i) = (gamma_sq_th (st_after (cs ! i)))\<^sup>2
                         \<and> Ts1 ! (0 + i) = T_th (st_after (cs ! i))
                         \<and> S1 ! (0 + i) = call_s (cs ! i)"
    and len: "length gams1 = length (replicate mi (0::real))"
             "length S1 = length (replicate mi (0::real))"
             "length Ts1 = length (replicate mi (map (map (\<lambda>_. 0::real)) T0))"
    by blast
  have cs': "calls bits ?f (data_X tst) (data_Y tst) bp ?n (g, ?st) = Inr cs"
    using cs by simp
  have lcs: "length cs = ?n" by (rule calls_length [OF cs'])
  have n: "?n \<le> mi" using t1 by simp
  have lg: "length (take ?n gams1) = ?n" "length (take ?n S1) = ?n" "length (take ?n Ts1) = ?n"
    using len n by simp_all
  have g: "take ?n gams1 = map (\<lambda>c. (gamma_sq_th (st_after c))\<^sup>2) cs"
    by (rule nth_equalityI) (use lg lcs e in auto)
  have s: "take ?n S1 = map call_s cs"
    by (rule nth_equalityI) (use lg lcs e in auto)
  have tt: "take ?n Ts1 = map (\<lambda>c. T_th (st_after c)) cs"
    by (rule nth_equalityI) (use lg lcs e in auto)
  show thesis
    by (rule that [of cs]) (use inf lg cs' g s tt ne gm Tm in simp_all)
qed


section \<open>The evaluator\<close>

text \<open>
  Claim C1, as amended. \<open>sf\<close> stands for \<^verbatim>\<open>scipy.stats.chi2.sf\<close>, whose values are
  probabilities. Whenever \<^verbatim>\<open>compute_stat\<close> returns a statistic s,
  \<^verbatim>\<open>perform_test\<close> returns the result whose p-value is \<open>sf s (2 * J)\<close> for the
  frequency-based test and \<open>sf s J\<close> for the location-based test, J the number of rows
  of the parameter matrix; the p-value lies in [0, 1] and \<^verbatim>\<open>h0_rejected\<close> is
  \<open>pvalue < alpha\<close>. When \<^verbatim>\<open>compute_stat\<close> raises, \<^verbatim>\<open>perform_test\<close> raises the
  same.
\<close>

theorem perform_test_pvalue:
  assumes "\<forall>x k. 0 \<le> sf x k \<and> sf x k \<le> 1"
  shows "(test_freqs scf = Some T \<longrightarrow>
            (\<forall>s. SmoothCFTest_compute_stat scf tst = Inr s \<longrightarrow>
               SmoothCFTest_perform_test sf scf tst
                 = Inr \<lparr>res_alpha = alpha scf, pvalue = sf s (2 * length T), test_stat = s,
                        h0_rejected = (sf s (2 * length T) < alpha scf)\<rparr>
               \<and> 0 \<le> sf s (2 * length T) \<and> sf s (2 * length T) \<le> 1)
            \<and> (\<forall>e. SmoothCFTest_compute_stat scf tst = Inl e \<longrightarrow>
                  SmoothCFTest_perform_test sf scf tst = Inl e))
       \<and> (test_locs met = Some T' \<longrightarrow>
            (\<forall>s. MeanEmbeddingTest_compute_stat met tst' = Inr s \<longrightarrow>
               MeanEmbeddingTest_perform_test sf met tst'
                 = Inr \<lparr>res_alpha = alpha met, pvalue = sf s (length T'), test_stat = s,
                        h0_rejected = (sf s (length T') < alpha met)\<rparr>
               \<and> 0 \<le> sf s (length T') \<and> sf s (length T') \<le> 1)
            \<and> (\<forall>e. MeanEmbeddingTest_compute_stat met tst' = Inl e \<longrightarrow>
                  MeanEmbeddingTest_perform_test sf met tst' = Inl e))"
  using assms
  by (simp add: SmoothCFTest_perform_test_def MeanEmbeddingTest_perform_test_def Let_def)

theorem perform_test_pvalue_witness:
  "SmoothCFTest_perform_test chi2_sf_even
       \<lparr>alpha = 1 / 100, test_freqs = Some [[1]], scf_gaussian_width = 1\<rparr>
       \<lparr>data_X = pi_X 1, data_Y = zero_Y, mean_std = 1\<rparr>
     = Inr \<lparr>res_alpha = 1 / 100, pvalue = chi2_sf_even 4 2, test_stat = 4,
            h0_rejected = (chi2_sf_even 4 2 < 1 / 100)\<rparr>
   \<and> MeanEmbeddingTest_perform_test chi2_sf_even
       \<lparr>alpha = 1 / 100, test_locs = Some corner_locs, me_gaussian_width = 1\<rparr>
       \<lparr>data_X = corners_X, data_Y = [[0, 0, 1], [0, 0, 1], [0, 0, 1]], mean_std = 1\<rparr>
     = Inr \<lparr>res_alpha = 1 / 100, pvalue = chi2_sf_even 4 2, test_stat = 4,
            h0_rejected = (chi2_sf_even 4 2 < 1 / 100)\<rparr>
   \<and> 0 \<le> chi2_sf_even 4 2 \<and> chi2_sf_even 4 2 \<le> 1"
proof -
  have r: "\<forall>x k. 0 \<le> chi2_sf_even x k \<and> chi2_sf_even x k \<le> 1"
    using chi2_sf_even_range by simp
  have l: "length corner_locs = 2" by (simp add: corner_locs_def)
  show ?thesis
    using perform_test_pvalue [OF r,
        of "\<lparr>alpha = 1 / 100, test_freqs = Some [[1]], scf_gaussian_width = 1\<rparr>" "[[1]]"
           "\<lparr>data_X = pi_X 1, data_Y = zero_Y, mean_std = 1\<rparr>"
           "\<lparr>alpha = 1 / 100, test_locs = Some corner_locs, me_gaussian_width = 1\<rparr>"
           corner_locs
           "\<lparr>data_X = corners_X, data_Y = [[0, 0, 1], [0, 0, 1], [0, 0, 1]], mean_std = 1\<rparr>"]
      scf_stat_pi [of "1 / 100" 1] me_stat_corners [of "1 / 100" 1] l
    by simp
qed

text \<open>
  Claim C1 as stated fails: for two equal samples the feature matrix is zero, its
  covariance is singular and \<^verbatim>\<open>perform_test\<close> raises LinAlgError instead of
  returning a result.
\<close>

theorem perform_test_singular_counterexample:
  "SmoothCFTest_init (Some [[1]]) 1 (1 / 100)
     = Inr \<lparr>alpha = 1 / 100, test_freqs = Some [[1]], scf_gaussian_width = 1\<rparr>
   \<and> SmoothCFTest_perform_test chi2_sf_even
       \<lparr>alpha = 1 / 100, test_freqs = Some [[1]], scf_gaussian_width = 1\<rparr>
       \<lparr>data_X = [[0], [1]], data_Y = [[0], [1]], mean_std = 1 / 2\<rparr>
     = Inl (Raised LinAlgError)"
  by (simp add: SmoothCFTest_init_def SmoothCFTest_perform_test_def scf_stat_same)

section \<open>Faults during the optimization\<close>

text \<open>
  Claim C2 holds for \<^verbatim>\<open>optimize_T_gaussian_width\<close> when the fault comes after a
  recorded iteration (\<open>loop_T_handler\<close>: the handler steps t back and leaves the loop
  with the arrays as they were). It fails in two places. For two equal samples the
  covariance is singular and the first evaluation of the objective raises LinAlgError.
  \<^verbatim>\<open>optimize_gaussian_width\<close>, reached through \<^verbatim>\<open>SmoothCFTest.optimize_gwidth\<close>,
  has no \<^verbatim>\<open>try\<close>: the exception propagates. In \<^verbatim>\<open>optimize_T_gaussian_width\<close>,
  reached through \<^verbatim>\<open>SmoothCFTest.optimize_freqs_width\<close>, the handler sets t to -1,
  the traces are empty and \<^verbatim>\<open>Ts[-1]\<close> raises IndexError.
\<close>

theorem first_iteration_fault_propagates:
  "optimize_gwidth demo_bits ad same_data [[1]] 400 (1 / 10) 1 (1 / 1000) g
     = Inl (Raised LinAlgError)
   \<and> optimize_freqs_width demo_bits demo_normal ad same_data 1 400 (1 / 5) (1 / 100) 1 (1 / 1000) 1 g
     = Inl (Raised IndexError)"
  using same_run_gw [of ad "1 / 10" "1 / 1000" g]
    same_run_T [of ad "1 / 5" "1 / 100" "1 / 1000" 1 g]
  by simp

section \<open>Termination of the loops\<close>

text \<open>
  Claim C3. Both loops go on to the next index exactly when the index is below 2 or
  the last two objective values differ by more than \<^verbatim>\<open>tol_fun\<close>, and the next
  index is below \<^verbatim>\<open>max_iter\<close> (\<open>loop_T_continue\<close>, \<open>loop_T_stop\<close>,
  \<open>loop_gw_continue\<close>, \<open>loop_gw_stop\<close>). With a constant objective both stop in the
  third iteration, at t = 2. \<^verbatim>\<open>optimize_T_gaussian_width\<close> then returns
  \<^verbatim>\<open>S[:t+1]\<close>, of length 3; \<^verbatim>\<open>optimize_gaussian_width\<close> returns \<^verbatim>\<open>S[:t]\<close> and
  \<^verbatim>\<open>gams[:t]\<close>, of length 2, and the bandwidth of the second iteration.
\<close>

theorem width_only_trace_drops_last:
  "optimize_gaussian_width demo_bits zero_grads const_data [[1]] const_z 400 (1 / 10) 1 (1 / 1000) g
     = Inr (((10001 / 10000)\<^sup>2,
             \<lparr>info_T = [[1]], info_gw_gwidths = [(10001 / 10000)\<^sup>2, (10001 / 10000)\<^sup>2],
              info_gw_obj_values = [2, 2]\<rparr>),
            g\<lparr>rng_pos := rng_pos g + 3\<rparr>)"
  by (rule const_run)

section \<open>The evaluator's statistic and the optimizers' objective\<close>


lemma smooth_features_shape:
  "length (smooth_features X T) = length X
   \<and> (\<forall>r \<in> set (smooth_features X T). length r = 2 * length T)"
  by (auto simp: smooth_features_def hstack_def row_scale_def mmap_def dot_T_def Let_def
      set_zip)

lemma msub_shape:
  assumes "length A = length B"
    and "\<forall>r \<in> set A. length r = m" and "\<forall>r \<in> set B. length r = m"
  shows "length (msub A B) = length A \<and> (\<forall>r \<in> set (msub A B). length r = m)"
  using assms by (auto simp: msub_def vsub_def set_zip)

lemma construct_z_shape:
  assumes "construct_z X Y T w = Inr Z"
  shows "length Z = length X \<and> (\<forall>r \<in> set Z. length r = 2 * length T)"
proof -
  let ?A = "smooth_features (sdiv X w) T"
  let ?B = "smooth_features (sdiv Y w) T"
  have l: "length X = length Y" and Z: "Z = msub ?A ?B"
    using assms by (auto simp: construct_z_def split: if_splits)
  have "length ?A = length ?B"
    using l smooth_features_shape [of "sdiv X w" T] smooth_features_shape [of "sdiv Y w" T]
    by (simp add: sdiv_def)
  from msub_shape [OF this, of "2 * length T"]
  show ?thesis
    unfolding Z
    using smooth_features_shape [of "sdiv X w" T] smooth_features_shape [of "sdiv Y w" T]
    by (simp add: sdiv_def)
qed

lemma construct_z_theano_eq:
  "length X = length Y \<Longrightarrow> construct_z_theano X Y T w = construct_z X Y T w"
  by (simp add: construct_z_theano_def construct_z_def)

lemma pi_objective_rows:
  "c \<noteq> 0 \<Longrightarrow> th_objective (\<lambda>X Y T w. Inr [[0, 0], [c, -1], [- c, -1]]) 3 Xb Yb T q = Inr 6"
  by (simp add: th_defs array_defs solve_defs)

text \<open>
  Claim C4. On the same full sample (X, Y) with the same number n of rows, at least
  two, the same frequencies T and the same bandwidth (the square of \<^verbatim>\<open>gamma_sq_th\<close>),
  the objective of the optimizers is n/(n - 1) times the statistic of
  \<^verbatim>\<open>SmoothCFTest.compute_stat\<close>, and fails as the statistic fails: both use the mean W
  of the rows of Z, but \<^verbatim>\<open>np.cov\<close> divides the centred products by n - 1 and the
  objective divides them by \<^verbatim>\<open>nx\<close> = n. The inverse applied to W is the solution of the
  linear system (\<open>inverse_scaled_vs_solve\<close>).
\<close>


theorem objective_is_rescaled_statistic:
  assumes freqs: "test_freqs self = Some T"
    and width: "scf_gaussian_width self = q * q"
    and len: "length (data_X tst) = length (data_Y tst)"
    and two: "2 \<le> length (data_X tst)"
  shows "th_objective construct_z_theano (length (data_X tst)) (data_X tst) (data_Y tst) T q
           = (case SmoothCFTest_compute_stat self tst of
                Inl e \<Rightarrow> Inl e
              | Inr s \<Rightarrow>
                  Inr (real (length (data_X tst)) / (real (length (data_X tst)) - 1) * s))"
proof (cases "construct_z (data_X tst) (data_Y tst) T (q * q)")
  case (Inl e)
  have "th_objective construct_z_theano (length (data_X tst)) (data_X tst) (data_Y tst) T q = Inl e"
    by (simp add: th_objective_def construct_z_theano_eq [OF len] Inl)
  moreover have "SmoothCFTest_compute_stat self tst = Inl e"
    by (simp add: SmoothCFTest_compute_stat_def freqs width Inl)
  ultimately show ?thesis by simp
next
  case (Inr Z)
  note sh = construct_z_shape [OF Inr]
  have n: "length Z = length (data_X tst)" using sh by simp
  have rect: "\<forall>r \<in> set Z. length r = 2 * length T" using sh by simp
  have two': "2 \<le> length Z" using two n by simp
  have m: "2 * length T \<noteq> 1" by presburger
  have z: "construct_z_theano (data_X tst) (data_Y tst) T (q * q) = Inr Z"
    by (simp only: construct_z_theano_eq [OF len] Inr)
  have "th_objective construct_z_theano (length Z) (data_X tst) (data_Y tst) T q
          = th_objective (\<lambda>X Y T w. Inr Z) (length Z) (data_X tst) (data_Y tst) T q"
    by (rule th_objective_at
        [of construct_z_theano "data_X tst" "data_Y tst" T q Z "length Z", OF z])
  also have "\<dots> = (case quad_stat (length Z) Z of
                       Inl e \<Rightarrow> Inl e
                     | Inr s \<Rightarrow> Inr (real (length Z) / (real (length Z) - 1) * s))"
    by (rule objective_vs_quad_stat [OF rect two' m])
  also have "quad_stat (length Z) Z = SmoothCFTest_compute_stat self tst"
    by (simp add: SmoothCFTest_compute_stat_def freqs width Inr n)
  finally show ?thesis unfolding n .
qed

theorem objective_is_rescaled_statistic_witness:
  "test_freqs \<lparr>alpha = 1 / 100, test_freqs = Some [[1]], scf_gaussian_width = 1\<rparr> = Some [[1]]
   \<and> scf_gaussian_width \<lparr>alpha = 1 / 100, test_freqs = Some [[1]], scf_gaussian_width = 1\<rparr> = 1 * 1
   \<and> length (pi_X 1) = length zero_Y
   \<and> 2 \<le> length (pi_X 1)
   \<and> th_objective construct_z_theano (length (pi_X 1)) (pi_X 1) zero_Y [[1]] 1
       = Inr (3 / (3 - 1) * 4)"
proof -
  have l: "length (pi_X 1) = 3" "length zero_Y = 3" by (simp_all add: pi_X_def zero_Y_def)
  note t = objective_is_rescaled_statistic
    [where self = "\<lparr>alpha = 1 / 100, test_freqs = Some [[1]], scf_gaussian_width = 1\<rparr>"
       and tst = "\<lparr>data_X = pi_X 1, data_Y = zero_Y, mean_std = 1\<rparr>"
       and T = "[[1]]" and q = 1]
  have "th_objective construct_z_theano (length (pi_X 1)) (pi_X 1) zero_Y [[1]] 1
          = Inr (3 / (3 - 1) * 4)"
    using t l scf_stat_pi [of "1 / 100" 1] by simp
  then show ?thesis using l by simp
qed

theorem objective_exceeds_statistic_counterexample:
  "SmoothCFTest_compute_stat \<lparr>alpha = 1 / 100, test_freqs = Some [[1]], scf_gaussian_width = 1\<rparr>
     \<lparr>data_X = pi_X 1, data_Y = zero_Y, mean_std = 1\<rparr> = Inr 4
   \<and> th_objective construct_z_theano 3 (pi_X 1) zero_Y [[1]] 1 = Inr 6"
proof -
  have c: "env_c \<noteq> 0" by (simp add: env_c_def)
  have l: "length (pi_X 1) = length zero_Y" by (simp add: pi_X_def zero_Y_def)
  have z: "construct_z_theano (pi_X 1) zero_Y [[1]] (1 * 1)
             = Inr [[0, 0], [env_c, -1], [- env_c, -1]]"
    using pi_Z [of 1] by (simp add: construct_z_theano_eq [OF l])
  have "th_objective construct_z_theano 3 (pi_X 1) zero_Y [[1]] 1 = Inr 6"
    unfolding th_objective_at
      [of construct_z_theano "pi_X 1" zero_Y "[[1]]" 1 "[[0, 0], [env_c, -1], [- env_c, -1]]" 3,
       OF z]
    by (rule pi_objective_rows [OF c])
  then show ?thesis using scf_stat_pi [of "1 / 100" 1] by simp
qed


section \<open>Swapping the two samples\<close>

lemma vsub_swap: "vsub v u = map uminus (vsub u v)"
  unfolding vsub_def by (induction u v rule: list_induct2') simp_all

lemma msub_swap: "msub B A = mmap uminus (msub A B)"
  unfolding msub_def mmap_def
  by (induction A B rule: list_induct2') (simp_all add: vsub_swap [symmetric])

lemma dot_uminus: "dot (map uminus x) (map uminus y) = dot x y"
  unfolding dot_def by (induction x y rule: list_induct2') simp_all

lemma sum_list_uminus: "sum_list (map uminus (c :: real list)) = - sum_list c"
  by (induction c) simp_all

lemma np_cov_T_uminus: "np_cov_T (mmap uminus Z) = np_cov_T Z"
proof -
  let ?n = "real (length Z)"
  let ?cen = "\<lambda>c :: real list. map (\<lambda>a. a - sum_list c / ?n) c"
  have c: "?cen (map uminus c) = map uminus (?cen c)" for c
    by (simp add: sum_list_uminus)
  have t: "transpose (mmap uminus Z) = map (map uminus) (transpose Z)"
    unfolding mmap_def by (rule transpose_map_map)
  have m: "map ?cen (transpose (mmap uminus Z)) = map (map uminus) (map ?cen (transpose Z))"
    unfolding t using c by simp
  have e: "map (\<lambda>ci. map (\<lambda>cj. dot ci cj * k) (map (map uminus) C)) (map (map uminus) C)
             = map (\<lambda>ci. map (\<lambda>cj. dot ci cj * k) C) C" for k and C :: mat
    by (simp add: dot_uminus comp_def)
  have l: "length (mmap uminus Z) = length Z" by (simp add: mmap_def)
  show ?thesis
    unfolding np_cov_T_def Let_def l m e ..
qed

lemma np_mean0_uminus:
  "np_mean0 (mmap uminus Z) = (case np_mean0 Z of Inl e \<Rightarrow> Inl e | Inr W \<Rightarrow> Inr (map uminus W))"
proof -
  have t: "transpose (mmap uminus Z) = map (map uminus) (transpose Z)"
    unfolding mmap_def by (rule transpose_map_map)
  have l: "length (mmap uminus Z) = length Z" "mmap uminus Z = [] \<longleftrightarrow> Z = []"
    by (simp_all add: mmap_def)
  show ?thesis
    unfolding np_mean0_def l t by (simp add: sum_list_uminus comp_def)
qed

lemma gesv_uminus:
  "gesv A (map (\<lambda>x. [x]) (map uminus W))
     = (case gesv A (map (\<lambda>x. [x]) W) of Inl e \<Rightarrow> Inl e | Inr X \<Rightarrow> Inr (map (vscale (- 1)) X))"
proof -
  let ?B = "map (\<lambda>x. [x]) W"
  have b: "map (\<lambda>x. [x]) (map uminus W) = map (vscale (- 1)) ?B"
    by (simp add: vscale_def)
  have z: "zip A (map (vscale (- 1)) ?B) = map (\<lambda>r. (fst r, vscale (- 1) (snd r))) (zip A ?B)"
    by (simp add: zip_map2 case_prod_unfold)
  have g: "gauss (map (\<lambda>r. (fst r, vscale (- 1) (snd r))) (zip A ?B))
             = map_option (map (vscale (- 1))) (gauss (zip A ?B))"
    using gauss_map_rhs [where P = "\<lambda>_. True" and f = "vscale (- 1)" and rows = "zip A ?B"]
    by (simp add: vscale_vsub vscale_vscale)
  show ?thesis
    unfolding gesv_def b z g by (simp split: option.splits)
qed

lemma np_linalg_solve_uminus:
  "np_linalg_solve S (map uminus W)
     = (case np_linalg_solve S W of Inl e \<Rightarrow> Inl e | Inr x \<Rightarrow> Inr (map uminus x))"
proof (cases S)
  case (Array0 v)
  then show ?thesis by (simp add: np_linalg_solve_def)
next
  case (Array2 A)
  have c: "concat (map (vscale (- 1)) X) = map uminus (concat X)" for X
    by (induction X) (simp_all add: vscale_def)
  show ?thesis
    unfolding np_linalg_solve_def Array2
    by (simp add: gesv_uminus c split: sum.splits del: map_map)
qed

lemma quad_stat_uminus: "quad_stat n (mmap uminus Z) = quad_stat n Z"
  unfolding quad_stat_def np_cov_T_uminus np_mean0_uminus
  by (simp add: np_linalg_solve_uminus dot_uminus split: sum.splits del: map_map)

lemma construct_z_swap:
  "construct_z Y X T w
     = (case construct_z X Y T w of Inl e \<Rightarrow> Inl e | Inr Z \<Rightarrow> Inr (mmap uminus Z))"
  using msub_swap [of "smooth_features (sdiv Y w) T" "smooth_features (sdiv X w) T"]
  by (auto simp: construct_z_def)

lemma construct_z_theano_swap:
  "construct_z_theano Y X T w
     = (case construct_z_theano X Y T w of Inl e \<Rightarrow> Inl e | Inr Z \<Rightarrow> Inr (mmap uminus Z))"
  using msub_swap [of "smooth_features (sdiv Y w) T" "smooth_features (sdiv X w) T"]
  by (auto simp: construct_z_theano_def)

lemma asym_gauss_kernel_theano_cases:
  obtains (nonfinite) "w = 0" "asym_gauss_kernel_theano X T w = Inl NonFinite"
  | (raised) "w \<noteq> 0" "asym_gauss_kernel_theano X T w = Inl (Raised ValueError)"
  | (kernel) g where "w \<noteq> 0" "asym_gauss_kernel_theano X T w = Inr g" "length g = length X"
  by (cases "w = 0"; cases "aligned X T") (auto simp: asym_gauss_kernel_theano_def sdiv_def)

lemma asym_gauss_kernel_cases:
  obtains (nonfinite) "w = 0" "asym_gauss_kernel X T w = Inl NonFinite"
  | (raised) "w \<noteq> 0" "asym_gauss_kernel X T w = Inl (Raised ValueError)"
  | (kernel) g where "w \<noteq> 0" "asym_gauss_kernel X T w = Inr g" "length g = length X"
  by (cases "w = 0"; cases "aligned X T") (auto simp: asym_gauss_kernel_def sdiv_def)

lemma me_construct_z_theano_swap:
  "me_construct_z_theano Y X T w
     = (case me_construct_z_theano X Y T w of Inl e \<Rightarrow> Inl e | Inr Z \<Rightarrow> Inr (mmap uminus Z))"
proof (cases rule: asym_gauss_kernel_theano_cases [of w X T])
  case nonfinite
  then show ?thesis by (simp add: me_construct_z_theano_def asym_gauss_kernel_theano_def)
next
  case raised
  then show ?thesis
    by (cases rule: asym_gauss_kernel_theano_cases [of w Y T])
       (simp_all add: me_construct_z_theano_def)
next
  case (kernel g)
  note kg = kernel
  show ?thesis
  proof (cases rule: asym_gauss_kernel_theano_cases [of w Y T])
    case nonfinite
    then show ?thesis using kg by simp
  next
    case raised
    then show ?thesis using kg by (simp add: me_construct_z_theano_def)
  next
    case (kernel h)
    then show ?thesis using kg msub_swap [of h g]
      by (auto simp: me_construct_z_theano_def)
  qed
qed

lemma scf_stat_swap:
  assumes "length (data_X tst) = length (data_Y tst)"
  shows "SmoothCFTest_compute_stat scf (tst\<lparr>data_X := data_Y tst, data_Y := data_X tst\<rparr>)
           = SmoothCFTest_compute_stat scf tst"
proof (cases "test_freqs scf")
  case None
  then show ?thesis by (simp add: SmoothCFTest_compute_stat_def)
next
  case (Some T)
  show ?thesis
    unfolding SmoothCFTest_compute_stat_def Some
    using assms
    by (simp add: construct_z_swap [of "data_Y tst" "data_X tst"] quad_stat_uminus
          split: sum.splits)
qed

lemma me_stat_swap:
  assumes "length (data_X tst) = length (data_Y tst)"
  shows "MeanEmbeddingTest_compute_stat met (tst\<lparr>data_X := data_Y tst, data_Y := data_X tst\<rparr>)
           = MeanEmbeddingTest_compute_stat met tst"
proof (cases "test_locs met")
  case None
  then show ?thesis by (simp add: MeanEmbeddingTest_compute_stat_def)
next
  case (Some T)
  let ?w = "me_gaussian_width met"
  show ?thesis
  proof (cases rule: asym_gauss_kernel_cases [of ?w "data_X tst" T])
    case nonfinite
    then show ?thesis
      by (simp add: MeanEmbeddingTest_compute_stat_def Some asym_gauss_kernel_def)
  next
    case raised
    then show ?thesis
      by (cases rule: asym_gauss_kernel_cases [of ?w "data_Y tst" T])
         (simp_all add: MeanEmbeddingTest_compute_stat_def Some)
  next
    case (kernel g)
    note kg = kernel
    show ?thesis
    proof (cases rule: asym_gauss_kernel_cases [of ?w "data_Y tst" T])
      case nonfinite
      then show ?thesis using kg by simp
    next
      case raised
      then show ?thesis using kg by (simp add: MeanEmbeddingTest_compute_stat_def Some)
    next
      case (kernel h)
      have l: "length g = length h" using kg kernel assms by simp
      have s: "np_sub g h = Inr (msub g h)" "np_sub h g = Inr (mmap uminus (msub g h))"
        using l msub_swap [of h g] by (simp_all add: np_sub_def)
      show ?thesis
        using kg kernel s assms
        by (simp add: MeanEmbeddingTest_compute_stat_def Some quad_stat_uminus)
    qed
  qed
qed

text \<open>
  Claim C6. Swapping X and Y negates the feature matrix of the frequency-based map (in
  its numpy and theano versions) and of the location-based map, and raises what the
  unswapped call raises; for two samples with the same number of rows the statistic of
  both tests is the same for (Y, X) as for (X, Y).
\<close>

theorem swap_negates_Z_keeps_statistic:
  "construct_z Y X T w
     = (case construct_z X Y T w of Inl e \<Rightarrow> Inl e | Inr Z \<Rightarrow> Inr (mmap uminus Z))
   \<and> construct_z_theano Y X T w
     = (case construct_z_theano X Y T w of Inl e \<Rightarrow> Inl e | Inr Z \<Rightarrow> Inr (mmap uminus Z))
   \<and> me_construct_z_theano Y X T w
     = (case me_construct_z_theano X Y T w of Inl e \<Rightarrow> Inl e | Inr Z \<Rightarrow> Inr (mmap uminus Z))
   \<and> (length (data_X tst) = length (data_Y tst) \<longrightarrow>
        SmoothCFTest_compute_stat scf (tst\<lparr>data_X := data_Y tst, data_Y := data_X tst\<rparr>)
          = SmoothCFTest_compute_stat scf tst
        \<and> MeanEmbeddingTest_compute_stat met (tst\<lparr>data_X := data_Y tst, data_Y := data_X tst\<rparr>)
          = MeanEmbeddingTest_compute_stat met tst)"
  using construct_z_swap construct_z_theano_swap me_construct_z_theano_swap scf_stat_swap me_stat_swap
  by blast

theorem swap_negates_Z_keeps_statistic_witness:
  "length (pi_X 1) = length zero_Y
   \<and> SmoothCFTest_compute_stat \<lparr>alpha = 1 / 100, test_freqs = Some [[1]], scf_gaussian_width = 1\<rparr>
       \<lparr>data_X = zero_Y, data_Y = pi_X 1, mean_std = 1\<rparr> = Inr 4
   \<and> length corners_X = length [[0, 0, 1], [0, 0, 1], [0, 0, 1 :: real]]
   \<and> MeanEmbeddingTest_compute_stat
       \<lparr>alpha = 1 / 100, test_locs = Some corner_locs, me_gaussian_width = 1\<rparr>
       \<lparr>data_X = [[0, 0, 1], [0, 0, 1], [0, 0, 1]], data_Y = corners_X, mean_std = 1\<rparr> = Inr 4"
proof -
  have l1: "length (pi_X 1) = length zero_Y" by (simp add: pi_X_def zero_Y_def)
  have l2: "length corners_X = length [[0, 0, 1], [0, 0, 1], [0, 0, 1 :: real]]"
    by (simp add: corners_X_def)
  note t1 = swap_negates_Z_keeps_statistic
    [where tst = "\<lparr>data_X = pi_X 1, data_Y = zero_Y, mean_std = 1\<rparr>"
       and scf = "\<lparr>alpha = 1 / 100, test_freqs = Some [[1]], scf_gaussian_width = 1\<rparr>",
     THEN conjunct2, THEN conjunct2, THEN conjunct2, THEN mp, THEN conjunct1]
  note t2 = swap_negates_Z_keeps_statistic
    [where tst = "\<lparr>data_X = corners_X, data_Y = [[0, 0, 1], [0, 0, 1], [0, 0, 1]], mean_std = 1\<rparr>"
       and met = "\<lparr>alpha = 1 / 100, test_locs = Some corner_locs, me_gaussian_width = 1\<rparr>",
     THEN conjunct2, THEN conjunct2, THEN conjunct2, THEN mp, THEN conjunct2]
  have a: "SmoothCFTest_compute_stat \<lparr>alpha = 1 / 100, test_freqs = Some [[1]], scf_gaussian_width = 1\<rparr>
       \<lparr>data_X = zero_Y, data_Y = pi_X 1, mean_std = 1\<rparr> = Inr 4"
    using t1 l1 scf_stat_pi [of "1 / 100" 1] by simp
  have b: "MeanEmbeddingTest_compute_stat
       \<lparr>alpha = 1 / 100, test_locs = Some corner_locs, me_gaussian_width = 1\<rparr>
       \<lparr>data_X = [[0, 0, 1], [0, 0, 1], [0, 0, 1]], data_Y = corners_X, mean_std = 1\<rparr> = Inr 4"
    using t2 l2 me_stat_corners [of "1 / 100" 1] by simp
  show ?thesis using l1 l2 a b by simp
qed

section \<open>Samples of different sizes\<close>

lemma scf_mismatch_raises:
  "test_freqs self = Some T \<Longrightarrow> length (data_X tst) \<noteq> length (data_Y tst) \<Longrightarrow>
   SmoothCFTest_compute_stat self tst = Inl (Raised ValueError)"
  by (simp add: SmoothCFTest_compute_stat_def construct_z_def)

lemma me_stat_broadcast:
  "MeanEmbeddingTest_compute_stat
     \<lparr>alpha = a, test_locs = Some corner_locs, me_gaussian_width = 1\<rparr>
     \<lparr>data_X = corners_X, data_Y = [[0, 0, 1]], mean_std = m\<rparr> = Inr 4"
proof -
  have b: "1 - exp (- 2 :: real) \<noteq> 0" by simp
  show ?thesis
    using quad_corners [OF b]
    by (simp add: MeanEmbeddingTest_compute_stat_def kernel_corners kernel_one np_sub_def vsub_def)
       (simp add: corners_X_def)
qed

text \<open>
  Claim C7 holds for the frequency-based test (\<open>scf_mismatch_raises\<close>) and fails for
  the location-based one: \<^verbatim>\<open>MeanEmbeddingTest.compute_stat\<close> has no check of the row
  counts, and numpy broadcasts the kernel matrix of a one-row Y in \<^verbatim>\<open>g - h\<close>. With
  three rows in X and one in Y the statistic is computed and no error is raised.
\<close>

theorem mean_embedding_accepts_one_row:
  "length corners_X \<noteq> length [[0, 0, 1 :: real]]
   \<and> MeanEmbeddingTest_compute_stat
       \<lparr>alpha = 1 / 100, test_locs = Some corner_locs, me_gaussian_width = 1\<rparr>
       \<lparr>data_X = corners_X, data_Y = [[0, 0, 1]], mean_std = 1 / 4\<rparr> = Inr 4"
  using me_stat_broadcast [of "1 / 100" "1 / 4"] by (simp add: corners_X_def)

section \<open>The exposed bandwidth\<close>

lemma lin_down_step_one:
  "draw_batch (func_gw lin_z lin_grads 2 2) [[4], [2]] [[1], [-1]] [1, 0]
      \<lparr>T_th = T, iter_th = 1, gamma_sq_th = 10001 / 10000\<rparr>
     = Inr (18 / (1 - (10001 / 10000) * (10001 / 10000))\<^sup>2,
            \<lparr>T_th = T, iter_th = 2, gamma_sq_th = - (9999 / 10000)\<rparr>)"
proof -
  have o: "th_objective lin_z 2 [[2], [4]] [[-1], [1]] T (10001 / 10000)
             = Inr (18 / (1 - (10001 / 10000) * (10001 / 10000))\<^sup>2)"
    by (rule lin_objective) simp
  have u: "gamma_update 2 1 (10001 / 10000)
             (gra_gamma_sq lin_grads [[2], [4]] [[-1], [1]] T (10001 / 10000)) = - (9999 / 10000)"
    by (simp add: gamma_update_def lin_grads_def power3_eq_cube)
  show ?thesis
    using o u by (simp add: draw_batch_def take_rows_def func_gw_def)
qed

lemma lin_down_step_two:
  "\<exists>s q. draw_batch (func_gw lin_z lin_grads 2 2) [[4], [2]] [[1], [-1]] [1, 0]
      \<lparr>T_th = T, iter_th = 2, gamma_sq_th = - (9999 / 10000)\<rparr>
     = Inr (s, \<lparr>T_th = T, iter_th = 3, gamma_sq_th = q\<rparr>)"
proof -
  have o: "th_objective lin_z 2 [[2], [4]] [[-1], [1]] T (- (9999 / 10000))
             = Inr (18 / (1 - (- (9999 / 10000)) * (- (9999 / 10000)))\<^sup>2)"
    by (rule lin_objective) simp
  show ?thesis
    using o by (simp add: draw_batch_def take_rows_def func_gw_def)
qed

lemma lin_down_run:
  "optimize_gaussian_width demo_bits lin_grads lin_data T lin_z 2 2 1 (1 / 1000) g
     = Inr (((9999 / 10000)\<^sup>2, \<lparr>info_T = T, info_gw_gwidths = [(9999 / 10000)\<^sup>2],
                 info_gw_obj_values = [18 / (1 - (10001 / 10000) * (10001 / 10000))\<^sup>2]\<rparr>),
            g\<lparr>rng_pos := rng_pos g + 2\<rparr>)"
proof -
  let ?f = "func_gw lin_z lin_grads 2 2"
  let ?L = "loop_gw demo_bits ?f [[4], [2]] [[1], [-1]] 2 1 (1 / 1000)"
  let ?s = "18 / (1 - (10001 / 10000) * (10001 / 10000))\<^sup>2 :: real"
  have l: "length [[4], [2::real]] = 2" by simp
  from lin_down_step_two [of T] obtain s q where
    two: "draw_batch ?f [[4], [2]] [[1], [-1]] [1, 0]
            \<lparr>T_th = T, iter_th = 2, gamma_sq_th = - (9999 / 10000)\<rparr>
          = Inr (s, \<lparr>T_th = T, iter_th = 3, gamma_sq_th = q\<rparr>)"
    by blast
  have "?L 0 (g, \<lparr>T_th = T, iter_th = 1, gamma_sq_th = 10001 / 10000\<rparr>, [0, 0], [0, 0])
      = ?L (Suc 0) (g\<lparr>rng_pos := rng_pos g + 1\<rparr>,
                    \<lparr>T_th = T, iter_th = 2, gamma_sq_th = - (9999 / 10000)\<rparr>,
                    [?s, 0], [(9999 / 10000)\<^sup>2, 0])"
    by (subst loop_gw_continue [OF choice_two [OF l] lin_down_step_one]) simp_all
  also have "\<dots> = Inr (Suc 0, g\<lparr>rng_pos := rng_pos g + 2\<rparr>, [?s, s], [(9999 / 10000)\<^sup>2, q\<^sup>2])"
    by (subst loop_gw_stop [OF choice_two [OF l] two]) simp_all
  finally have L: "?L 0 (g, \<lparr>T_th = T, iter_th = 1, gamma_sq_th = 10001 / 10000\<rparr>, [0, 0], [0, 0])
      = Inr (Suc 0, g\<lparr>rng_pos := rng_pos g + 2\<rparr>, [?s, s], [(9999 / 10000)\<^sup>2, q\<^sup>2])" .
  have r: "replicate 2 (0::real) = [0, 0]" by (simp add: numeral_2_eq_2)
  show ?thesis
    unfolding optimize_gaussian_width_def lin_data_def
    by (simp add: l r L Let_def del: length_Cons list.size One_nat_def)
qed

lemma squares_sign:
  "list_all2 (\<lambda>x c. 0 \<le> x \<and> (0 < x \<longleftrightarrow> gamma_sq_th (st_after c) \<noteq> 0))
     (map (\<lambda>c. (gamma_sq_th (st_after c))\<^sup>2) cs) cs"
  by (simp add: list_all2_map1 list_all2_same)

text \<open>
  Claim C8, as amended. A run of either optimizer that returns has made the calls of
  \<open>calls\<close>, one for each entry of the trace of bandwidths it returns, and entry i of
  the trace is the square of the value of \<^verbatim>\<open>gamma_sq_th\<close> that call i left. So every
  recorded bandwidth is not negative, and it is positive exactly when that value of the
  width variable is not zero, also when the value is negative. The bandwidth returned is
  the last entry of the returned trace. (A run in which a value leaves the real numbers
  does not return here.)
\<close>

theorem recorded_bandwidth_square:
  "(optimize_T_gaussian_width bits ad tst T0 func_z mi ts gs bp tol g = Inr ((T, gam, info), g') \<longrightarrow>
      (\<exists>cs. calls bits (func_T func_z ad (length (data_X tst)) ts gs) (data_X tst) (data_Y tst) bp
               (length (info_gwidths info))
               (g, \<lparr>T_th = T0, iter_th = 1, gamma_sq_th = 1 / 10000 + sqrt (mean_std tst)\<rparr>) = Inr cs
           \<and> info_gwidths info = map (\<lambda>c. (gamma_sq_th (st_after c))\<^sup>2) cs
           \<and> list_all2 (\<lambda>x c. 0 \<le> x \<and> (0 < x \<longleftrightarrow> gamma_sq_th (st_after c) \<noteq> 0))
               (info_gwidths info) cs)
      \<and> info_gwidths info \<noteq> [] \<and> gam = last (info_gwidths info))
   \<and> (optimize_gaussian_width bits2 ad2 tst2 T2 func_z2 mi2 gs2 bp2 tol2 g2
         = Inr ((gam2, info2), g2') \<longrightarrow>
      (\<exists>cs. calls bits2 (func_gw func_z2 ad2 (length (data_X tst2)) gs2) (data_X tst2) (data_Y tst2) bp2
               (length (info_gw_gwidths info2))
               (g2, \<lparr>T_th = T2, iter_th = 1, gamma_sq_th = 1 / 10000 + sqrt (mean_std tst2)\<rparr>) = Inr cs
           \<and> info_gw_gwidths info2 = map (\<lambda>c. (gamma_sq_th (st_after c))\<^sup>2) cs
           \<and> list_all2 (\<lambda>x c. 0 \<le> x \<and> (0 < x \<longleftrightarrow> gamma_sq_th (st_after c) \<noteq> 0))
               (info_gw_gwidths info2) cs)
      \<and> info_gw_gwidths info2 \<noteq> [] \<and> gam2 = last (info_gw_gwidths info2))"
proof (intro conjI impI)
  assume r: "optimize_T_gaussian_width bits ad tst T0 func_z mi ts gs bp tol g = Inr ((T, gam, info), g')"
  from optimize_T_calls [OF r] obtain cs where
    c: "calls bits (func_T func_z ad (length (data_X tst)) ts gs) (data_X tst) (data_Y tst) bp
          (length (info_Ts info))
          (g, \<lparr>T_th = T0, iter_th = 1, gamma_sq_th = 1 / 10000 + sqrt (mean_std tst)\<rparr>) = Inr cs"
    and w: "info_gwidths info = map (\<lambda>c. (gamma_sq_th (st_after c))\<^sup>2) cs"
    and Ts: "info_Ts info = map (\<lambda>c. T_th (st_after c)) cs"
    and ne: "info_Ts info \<noteq> []"
    and gm: "gam = last (info_gwidths info)"
    by metis
  have l: "length (info_gwidths info) = length (info_Ts info)" using w Ts by simp
  show "\<exists>cs. calls bits (func_T func_z ad (length (data_X tst)) ts gs) (data_X tst) (data_Y tst) bp
               (length (info_gwidths info))
               (g, \<lparr>T_th = T0, iter_th = 1, gamma_sq_th = 1 / 10000 + sqrt (mean_std tst)\<rparr>) = Inr cs
           \<and> info_gwidths info = map (\<lambda>c. (gamma_sq_th (st_after c))\<^sup>2) cs
           \<and> list_all2 (\<lambda>x c. 0 \<le> x \<and> (0 < x \<longleftrightarrow> gamma_sq_th (st_after c) \<noteq> 0))
               (info_gwidths info) cs"
    unfolding l using c w squares_sign [of cs] by (intro exI [of _ cs]) simp
  show "info_gwidths info \<noteq> []" using ne l by auto
  show "gam = last (info_gwidths info)" by (rule gm)
next
  assume r: "optimize_gaussian_width bits2 ad2 tst2 T2 func_z2 mi2 gs2 bp2 tol2 g2
               = Inr ((gam2, info2), g2')"
  from optimize_gw_calls [OF r] obtain cs where
    c: "calls bits2 (func_gw func_z2 ad2 (length (data_X tst2)) gs2) (data_X tst2) (data_Y tst2) bp2
          (length (info_gw_gwidths info2))
          (g2, \<lparr>T_th = T2, iter_th = 1, gamma_sq_th = 1 / 10000 + sqrt (mean_std tst2)\<rparr>) = Inr cs"
    and w: "info_gw_gwidths info2 = map (\<lambda>c. (gamma_sq_th (st_after c))\<^sup>2) cs"
    and ne: "info_gw_gwidths info2 \<noteq> []"
    and gm: "gam2 = last (info_gw_gwidths info2)"
    by metis
  show "\<exists>cs. calls bits2 (func_gw func_z2 ad2 (length (data_X tst2)) gs2) (data_X tst2) (data_Y tst2) bp2
               (length (info_gw_gwidths info2))
               (g2, \<lparr>T_th = T2, iter_th = 1, gamma_sq_th = 1 / 10000 + sqrt (mean_std tst2)\<rparr>) = Inr cs
           \<and> info_gw_gwidths info2 = map (\<lambda>c. (gamma_sq_th (st_after c))\<^sup>2) cs
           \<and> list_all2 (\<lambda>x c. 0 \<le> x \<and> (0 < x \<longleftrightarrow> gamma_sq_th (st_after c) \<noteq> 0))
               (info_gw_gwidths info2) cs"
    using c w squares_sign [of cs] by (intro exI [of _ cs]) simp
  show "info_gw_gwidths info2 \<noteq> []" by (rule ne)
  show "gam2 = last (info_gw_gwidths info2)" by (rule gm)
qed

theorem recorded_bandwidth_square_witness:
  "optimize_T_gaussian_width demo_bits unit_grads pi_data [[1]] construct_z_theano 1 (1 / 5) (1 / 100)
       1 (1 / 1000) (np_random_seed 0)
     = Inr (([[6 / 5]], 1 / 100000000,
             \<lparr>info_Ts = [[[6 / 5]]], info_T0 = [[1]], info_gwidths = [1 / 100000000],
              info_obj_values = [6]\<rparr>),
            (np_random_seed 0)\<lparr>rng_pos := rng_pos (np_random_seed 0) + 2\<rparr>)
   \<and> (\<exists>cs. calls demo_bits (func_T construct_z_theano unit_grads 3 (1 / 5) (1 / 100))
              (pi_X (1 / 100000000)) zero_Y 1 (Suc 0)
              (np_random_seed 0, \<lparr>T_th = [[1]], iter_th = 1, gamma_sq_th = 1 / 10000\<rparr>) = Inr cs
          \<and> map (\<lambda>c. gamma_sq_th (st_after c)) cs = [1 / 10000]
          \<and> [1 / 100000000] = map (\<lambda>c. (gamma_sq_th (st_after c))\<^sup>2) cs)
   \<and> optimize_gaussian_width demo_bits lin_grads lin_data [[1]] lin_z 2 2 1 (1 / 1000)
       (np_random_seed 0)
     = Inr (((9999 / 10000)\<^sup>2,
             \<lparr>info_T = [[1]], info_gw_gwidths = [(9999 / 10000)\<^sup>2],
              info_gw_obj_values = [18 / (1 - (10001 / 10000) * (10001 / 10000))\<^sup>2]\<rparr>),
            (np_random_seed 0)\<lparr>rng_pos := rng_pos (np_random_seed 0) + 2\<rparr>)
   \<and> (\<exists>cs. calls demo_bits (func_gw lin_z lin_grads 2 2) [[4], [2]] [[1], [-1]] 1 (Suc 0)
              (np_random_seed 0, \<lparr>T_th = [[1]], iter_th = 1, gamma_sq_th = 10001 / 10000\<rparr>) = Inr cs
          \<and> map (\<lambda>c. gamma_sq_th (st_after c)) cs = [- (9999 / 10000)]
          \<and> [(9999 / 10000)\<^sup>2] = map (\<lambda>c. (gamma_sq_th (st_after c))\<^sup>2) cs)"
proof -
  note a = pi_run0 [of "1 / 100" "1 / 1000" "np_random_seed 0"]
  note b = lin_down_run [of "[[1]]" "np_random_seed 0"]
  let ?fT = "func_T construct_z_theano unit_grads 3 (1 / 5) (1 / 100)"
  let ?fw = "func_gw lin_z lin_grads 2 2"
  have l3: "length (pi_X (1 / 100000000)) = 3" by (simp add: pi_X_def)
  have l2: "length [[4], [2::real]] = 2" by simp
  have len1: "length [x] = Suc 0" for x :: real by simp
  \<comment> \<open>the first call of each run, evaluated\<close>
  from step_call [OF choice_three [OF l3, of "np_random_seed 0"] pi_step [of "1 / 100"]]
  obtain c1 where c1: "one_call demo_bits ?fT (pi_X (1 / 100000000)) zero_Y 1
        (np_random_seed 0, \<lparr>T_th = [[1]], iter_th = 1, gamma_sq_th = 1 / 10000\<rparr>)
      = Inr (c1, (np_random_seed 0)\<lparr>rng_pos := rng_pos (np_random_seed 0) + 2\<rparr>)"
    and s1: "st_after c1 = \<lparr>T_th = [[6 / 5]], iter_th = 2, gamma_sq_th = 1 / 10000\<rparr>"
    by metis
  from step_call [OF choice_two [OF l2, of "np_random_seed 0"] lin_down_step_one [of "[[1]]"]]
  obtain c2 where c2: "one_call demo_bits ?fw [[4], [2]] [[1], [-1]] 1
        (np_random_seed 0, \<lparr>T_th = [[1]], iter_th = 1, gamma_sq_th = 10001 / 10000\<rparr>)
      = Inr (c2, (np_random_seed 0)\<lparr>rng_pos := rng_pos (np_random_seed 0) + 1\<rparr>)"
    and s2: "st_after c2 = \<lparr>T_th = [[1]], iter_th = 2, gamma_sq_th = - (9999 / 10000)\<rparr>"
    by metis
  note e1 = calls_one [OF c1]
  note e2 = calls_one [OF c2]
  \<comment> \<open>the theorem at the two runs\<close>
  have t1: "\<exists>cs. calls demo_bits ?fT (pi_X (1 / 100000000)) zero_Y 1 (Suc 0)
              (np_random_seed 0, \<lparr>T_th = [[1]], iter_th = 1, gamma_sq_th = 1 / 10000\<rparr>) = Inr cs
          \<and> [1 / 100000000] = map (\<lambda>c. (gamma_sq_th (st_after c))\<^sup>2) cs"
    using recorded_bandwidth_square [THEN conjunct1, THEN mp, OF a, THEN conjunct1]
    by (simp add: pi_data_def l3 del: calls.simps) (elim exE conjE, intro exI conjI, assumption+)
  have t2: "\<exists>cs. calls demo_bits ?fw [[4], [2]] [[1], [-1]] 1 (Suc 0)
              (np_random_seed 0, \<lparr>T_th = [[1]], iter_th = 1, gamma_sq_th = 10001 / 10000\<rparr>) = Inr cs
          \<and> [(9999 / 10000)\<^sup>2] = map (\<lambda>c. (gamma_sq_th (st_after c))\<^sup>2) cs"
    using recorded_bandwidth_square [THEN conjunct2, THEN mp, OF b, THEN conjunct1]
    by (simp add: lin_data_def l2 len1 del: calls.simps length_Cons list.size)
      (elim exE conjE, intro exI conjI, assumption+)
  have r1: "\<exists>cs. calls demo_bits ?fT (pi_X (1 / 100000000)) zero_Y 1 (Suc 0)
              (np_random_seed 0, \<lparr>T_th = [[1]], iter_th = 1, gamma_sq_th = 1 / 10000\<rparr>) = Inr cs
          \<and> map (\<lambda>c. gamma_sq_th (st_after c)) cs = [1 / 10000]
          \<and> [1 / 100000000] = map (\<lambda>c. (gamma_sq_th (st_after c))\<^sup>2) cs"
    using t1 unfolding e1 by (simp add: s1)
  have r2: "\<exists>cs. calls demo_bits ?fw [[4], [2]] [[1], [-1]] 1 (Suc 0)
              (np_random_seed 0, \<lparr>T_th = [[1]], iter_th = 1, gamma_sq_th = 10001 / 10000\<rparr>) = Inr cs
          \<and> map (\<lambda>c. gamma_sq_th (st_after c)) cs = [- (9999 / 10000)]
          \<and> [(9999 / 10000)\<^sup>2] = map (\<lambda>c. (gamma_sq_th (st_after c))\<^sup>2) cs"
    using t2 unfolding e2 by (simp add: s2)
  show ?thesis using a b r1 r2 by blast
qed

text \<open>
  Claim C8 as stated fails: the exposed bandwidth can be zero. With the feature map
  Z = X - w Y on \<open>lin_data\<close> the objective is 18 / (1 - q * q)^2 at the value q of the
  width variable (\<open>lin_objective\<close>), and \<open>lin_grads\<close> is its derivative
  (\<open>lin_grads_derivative\<close>). The variable starts at 1.0001; with the step size 1.0001
  the first update, clipped to one step, moves it to zero. The bandwidth recorded and
  returned by \<^verbatim>\<open>optimize_gaussian_width\<close> is zero.
\<close>

theorem zero_bandwidth_counterexample:
  "optimize_gaussian_width demo_bits lin_grads lin_data [[1]] lin_z 2 (10001 / 10000) 1 (1 / 1000)
       (np_random_seed 0)
     = Inr ((0, \<lparr>info_T = [[1]], info_gw_gwidths = [0],
                 info_gw_obj_values = [18 / (1 - (10001 / 10000) * (10001 / 10000))\<^sup>2]\<rparr>),
            \<lparr>rng_key = 0, rng_pos = 2\<rparr>)"
  using lin_run [of "[[1]]" "np_random_seed 0"] by (simp add: np_random_seed_def)

section \<open>The seed and the global generator\<close>

text \<open>
  Claim C9, as amended. \<^verbatim>\<open>optimize_freqs_width\<close> saves the global state, seeds, draws
  T0 and restores the state: T0 is the same whatever the global state at the call. The
  loop draws its mini-batches after that, from the restored global state: at the return
  the key is the caller's and the position is the caller's advanced by the draws of at
  least one batch, so with two rows or more the global state has changed.
\<close>

theorem seed_covers_T0_only:
  "optimize_freqs_width bits normal ad tst J mi fs gs bp tol seed g = Inr ((T, gam, info), g') \<longrightarrow>
     info_T0 info = fst (randn normal (np_random_seed seed) J (dim tst))
     \<and> rng_key g' = rng_key g
     \<and> (\<exists>k\<ge>1. rng_pos g' = rng_pos g + k * (length (data_X tst) - 1))
     \<and> (2 \<le> length (data_X tst) \<longrightarrow> g' \<noteq> g)"
proof
  assume r: "optimize_freqs_width bits normal ad tst J mi fs gs bp tol seed g = Inr ((T, gam, info), g')"
  let ?T0 = "fst (randn normal (np_random_seed seed) J (dim tst))"
  have o: "optimize_T_gaussian_width bits ad tst ?T0 construct_z_theano mi fs gs bp tol g
             = Inr ((T, gam, info), g')"
    using r unfolding optimize_freqs_width_def Let_def by (simp split: prod.splits)
  from o obtain t1 S1 Ts1 gams1 where
    L: "loop_T bits (func_T construct_z_theano ad (length (data_X tst)) fs gs) (data_X tst)
          (data_Y tst) mi bp tol 0
       (g, \<lparr>T_th = ?T0, iter_th = 1, gamma_sq_th = 1 / 10000 + sqrt (mean_std tst)\<rparr>,
        replicate mi 0, replicate mi (map (map (\<lambda>_. 0)) ?T0), replicate mi 0)
     = Inr (t1, g', S1, Ts1, gams1)"
    and inf: "info = \<lparr>info_Ts = take (nat (t1 + 1)) Ts1, info_T0 = ?T0,
             info_gwidths = take (nat (t1 + 1)) gams1, info_obj_values = take (nat (t1 + 1)) S1\<rparr>"
    by (rule optimize_T_result)
  have i: "info_T0 info = ?T0" unfolding inf by simp
  note inv = loop_T_inv [OF L]
  have key: "rng_key g' = rng_key g" using inv by simp
  have ex: "\<exists>k\<ge>1. rng_pos g' = rng_pos g + k * (length (data_X tst) - 1)" using inv by simp
  from ex obtain k where k: "k \<ge> 1" "rng_pos g' = rng_pos g + k * (length (data_X tst) - 1)"
    by blast
  have ne: "2 \<le> length (data_X tst) \<longrightarrow> g' \<noteq> g"
  proof (intro impI notI)
    assume l: "2 \<le> length (data_X tst)" and "g' = g"
    then have "k * (length (data_X tst) - 1) = 0" using k by simp
    then show False using k l by simp
  qed
  show "info_T0 info = ?T0 \<and> rng_key g' = rng_key g
        \<and> (\<exists>k\<ge>1. rng_pos g' = rng_pos g + k * (length (data_X tst) - 1))
        \<and> (2 \<le> length (data_X tst) \<longrightarrow> g' \<noteq> g)"
    using i key ex ne by (intro conjI)
qed

theorem seed_covers_T0_only_witness:
  "optimize_freqs_width demo_bits demo_normal unit_grads pi_data 1 1 (1 / 5) (1 / 100) 1 (1 / 1000) 1
       (np_random_seed 7)
     = Inr (([[6 / 5]], 1 / 100000000,
             \<lparr>info_Ts = [[[6 / 5]]], info_T0 = [[1]], info_gwidths = [1 / 100000000],
              info_obj_values = [6]\<rparr>),
            (np_random_seed 7)\<lparr>rng_pos := rng_pos (np_random_seed 7) + 2\<rparr>)
   \<and> [[1]] = fst (randn demo_normal (np_random_seed 1) 1 (dim pi_data))
   \<and> 2 \<le> length (data_X pi_data)
   \<and> (np_random_seed 7)\<lparr>rng_pos := rng_pos (np_random_seed 7) + 2\<rparr> \<noteq> np_random_seed 7"
proof -
  note a = pi_run [of "1 / 100" "1 / 1000" 1 "np_random_seed 7"]
  note t = seed_covers_T0_only [THEN mp, OF a]
  have l: "2 \<le> length (data_X pi_data)" by (simp add: pi_data_def pi_X_def)
  have "[[1]] = fst (randn demo_normal (np_random_seed 1) 1 (dim pi_data))"
    using t by simp
  moreover have "(np_random_seed 7)\<lparr>rng_pos := rng_pos (np_random_seed 7) + 2\<rparr> \<noteq> np_random_seed 7"
    using t l by blast
  ultimately show ?thesis using a l by simp
qed

text \<open>
  Claim C9 as stated fails in its second half: after a call that returns, the global
  state is not the state before the call.
\<close>

theorem global_state_advanced_counterexample:
  "optimize_freqs_width demo_bits demo_normal unit_grads pi_data 1 1 (1 / 5) (1 / 100) 1 (1 / 1000) 1
       \<lparr>rng_key = 7, rng_pos = 0\<rparr>
     = Inr (([[6 / 5]], 1 / 100000000,
             \<lparr>info_Ts = [[[6 / 5]]], info_T0 = [[1]], info_gwidths = [1 / 100000000],
              info_obj_values = [6]\<rparr>),
            \<lparr>rng_key = 7, rng_pos = 2\<rparr>)
   \<and> \<lparr>rng_key = 7, rng_pos = 2\<rparr> \<noteq> \<lparr>rng_key = 7, rng_pos = 0 :: nat\<rparr>"
  using pi_run [of "1 / 100" "1 / 1000" 1 "\<lparr>rng_key = 7, rng_pos = 0\<rparr>"] by simp

section \<open>The update of the parameter matrix\<close>















section \<open>Mini-batches\<close>

lemma shuffle_mset:
  "i < length xs \<Longrightarrow> mset (shuffle bits key pos i xs) = mset xs"
proof (induction i arbitrary: pos xs)
  case 0
  then show ?case by simp
next
  case (Suc i)
  let ?j = "bits key pos mod Suc (Suc i)"
  have j: "?j < length xs" using Suc.prems
    by (meson mod_less_divisor less_Suc_eq_le le_less_trans zero_less_Suc less_trans_Suc not_less_eq)
  have "mset (xs[Suc i := xs ! ?j, ?j := xs ! Suc i]) = mset xs"
    using mset_swap [OF j Suc.prems] .
  moreover have "i < length (xs[Suc i := xs ! ?j, ?j := xs ! Suc i])"
    using Suc.prems by simp
  ultimately show ?case using Suc.IH by (simp add: Let_def)
qed

lemma shuffle_range_mset: "mset (shuffle bits key pos (n - 1) [0..<n]) = mset [0..<n]"
proof (cases "n = 0")
  case True
  then show ?thesis by simp
next
  case False
  then show ?thesis by (intro shuffle_mset) simp
qed

lemma shuffle_range_distinct: "distinct (shuffle bits key pos (n - 1) [0..<n])"
  using shuffle_range_mset [of bits key pos n] mset_eq_imp_distinct_iff distinct_upt by blast

lemma shuffle_range_set: "set (shuffle bits key pos (n - 1) [0..<n]) = {0..<n}"
  using shuffle_range_mset [of bits key pos n] mset_eq_setD by fastforce

lemma shuffle_range_length: "length (shuffle bits key pos (n - 1) [0..<n]) = n"
  using shuffle_range_mset [of bits key pos n] mset_eq_length by fastforce

lemma batch_size_nonneg:
  "0 \<le> bp \<Longrightarrow> batch_size bp nx = min \<lfloor>bp * real nx\<rfloor> (int nx)"
  by (simp add: batch_size_def py_int_def)

text \<open>
  Claim C5, as amended. Both loops draw the batch with
  \<^verbatim>\<open>np.random.choice(nx, min(int(batch_proportion*nx), nx), replace=False)\<close>.
  For a proportion that is not negative and a sample that is not empty the draw
  succeeds; the batch has \<open>min (floor (batch_proportion * nx)) nx\<close> indices (the floor,
  not the ceiling), they are distinct and lie in \<open>{0..<nx}\<close>; with proportion 1 they
  are all of \<open>{0..<nx}\<close>.
\<close>

theorem minibatch_floor:
  assumes "0 \<le> bp" and "0 < nx"
  shows "\<exists>ind g'. np_random_choice bits g nx (batch_size bp nx) = Inr (ind, g')
           \<and> int (length ind) = min \<lfloor>bp * real nx\<rfloor> (int nx)
           \<and> distinct ind \<and> set ind \<subseteq> {0..<nx}
           \<and> (bp = 1 \<longrightarrow> set ind = {0..<nx})"
proof -
  let ?k = "batch_size bp nx"
  let ?p = "shuffle bits (rng_key g) (rng_pos g) (nx - 1) [0..<nx]"
  have k: "?k = min \<lfloor>bp * real nx\<rfloor> (int nx)" using assms batch_size_nonneg by simp
  have k0: "0 \<le> ?k" using assms unfolding k by simp
  have k1: "?k \<le> int nx" unfolding k by simp
  have run: "np_random_choice bits g nx ?k = Inr (take (nat ?k) ?p, g\<lparr>rng_pos := rng_pos g + (nx - 1)\<rparr>)"
    using assms k0 k1 by (simp add: np_random_choice_def)
  have lp: "length ?p = nx" by (rule shuffle_range_length)
  have len: "int (length (take (nat ?k) ?p)) = ?k"
    using k0 k1 lp by simp
  have dis: "distinct (take (nat ?k) ?p)"
    using shuffle_range_distinct [of bits "rng_key g" "rng_pos g" nx] by simp
  have sub: "set (take (nat ?k) ?p) \<subseteq> {0..<nx}"
    using set_take_subset [of "nat ?k" ?p] shuffle_range_set [of bits "rng_key g" "rng_pos g" nx] by simp
  have full: "bp = 1 \<longrightarrow> set (take (nat ?k) ?p) = {0..<nx}"
  proof
    assume "bp = 1"
    then have "nat ?k = nx" unfolding k by simp
    then show "set (take (nat ?k) ?p) = {0..<nx}"
      using lp shuffle_range_set [of bits "rng_key g" "rng_pos g" nx] by simp
  qed
  show ?thesis
    apply (rule exI [of _ "take (nat ?k) ?p"])
    apply (rule exI [of _ "g\<lparr>rng_pos := rng_pos g + (nx - 1)\<rparr>"])
    using run len dis sub full k assms by simp
qed

theorem minibatch_floor_witness:
  "(0::real) \<le> 1 / 2 \<and> (0::nat) < 5 \<and>
   (\<exists>ind g'. np_random_choice demo_bits (np_random_seed 1) 5 (batch_size (1 / 2) 5) = Inr (ind, g')
           \<and> int (length ind) = 2 \<and> distinct ind \<and> set ind \<subseteq> {0..<5})"
  using minibatch_floor [of "1 / 2" 5 demo_bits "np_random_seed 1"] by simp

text \<open>
  Claim C5 as stated fails: for five rows and proportion one half the batch has two
  indices, and the ceiling of 2.5 is three.
\<close>

theorem minibatch_ceiling_counterexample:
  "np_random_choice demo_bits (np_random_seed 1) 5 (batch_size (1 / 2) 5)
     = Inr ([1, 2], \<lparr>rng_key = 1, rng_pos = 4\<rparr>)
   \<and> int (length [1, 2 :: nat]) \<noteq> \<lceil>(1 / 2) * (5::real)\<rceil>"
proof -
  have b: "batch_size (1 / 2) 5 = 2"
    by (simp add: batch_size_def py_int_def)
  have u: "[0..<5] = [0, 1, 2, 3, 4]"
    by (simp add: upt_conv_Cons)
  have s: "shuffle demo_bits 1 0 4 [0, 1, 2, 3, 4] = [1, 2, 3, 4, 0]"
    by code_simp
  have "\<lceil>(1 / 2) * (5::real)\<rceil> = 3" by simp
  then show ?thesis
    unfolding b using s by (simp add: np_random_choice_def np_random_seed_def u)
qed

end
